theory Spec2Isabelle
  imports Complex_Main "HOL-Library.Word"
begin

unbundle bit_operations_syntax

section \<open>Data model\<close>

text \<open>
  The adaptive manifold filter of \<^verbatim>\<open>adaptive_manifold_filter_n.cpp\<close>. A single-channel
  \<^verbatim>\<open>CV_32FC1\<close> matrix is the list of its rows; a \<^verbatim>\<open>Mat1b\<close> cluster mask is a matrix of
  bytes. A C++ \<^verbatim>\<open>float\<close> or \<^verbatim>\<open>double\<close> is the real number it denotes; the section on
  machine arithmetic says which operations round. The entries of an input image are taken
  to be numbers of binary32, as those of the integer depths up to 16 bits and of \<^verbatim>\<open>CV_32F\<close>
  are.
\<close>

type_synonym plane = "real list list"
type_synonym mask = "8 word list list"

record cvSize =
  width :: nat
  height :: nat

definition mat_cols :: "'a list list \<Rightarrow> nat" where
  "mat_cols m = (case m of [] \<Rightarrow> 0 | r # _ \<Rightarrow> length r)"

definition mat_size :: "'a list list \<Rightarrow> cvSize" where
  "mat_size m = \<lparr>width = mat_cols m, height = length m\<rparr>"

text \<open>A matrix of size \<open>sz\<close>: \<open>height sz\<close> rows of \<open>width sz\<close> entries each.\<close>

definition is_mat :: "cvSize \<Rightarrow> 'a list list \<Rightarrow> bool" where
  "is_mat sz m = (length m = height sz \<and> (\<forall>r \<in> set m. length r = width sz))"

datatype depth = CV_8U | CV_8S | CV_16U | CV_16S | CV_32S | CV_32F | CV_64F

text \<open>An input or output array: its size, depth, channel count and channel planes
  (the entries as the numbers they denote).\<close>

record image =
  im_size :: cvSize
  im_depth :: depth
  im_channels :: nat
  im_data :: "plane list"

definition im_empty :: "image \<Rightarrow> bool" where
  "im_empty img = (width (im_size img) = 0 \<or> height (im_size img) = 0)"

text \<open>How the caller passes the guide: the very object passed as \<open>src\<close>, or an array of
  its own (possibly empty).\<close>

datatype joint_arg = JointSameObject | JointMat image

datatype error = AssertionFailed | OutOfRange

subsection \<open>Primitives of the image library\<close>

text \<open>
  The filter calls OpenCV for resizing, for the domain-transform filter object and for
  random numbers. They are parameters of the model: \<open>cv_resize src dsize fx fy\<close> is
  \<^verbatim>\<open>resize(src, dst, dsize, fx, fy, INTER_LINEAR)\<close>, \<open>dtf_filter adth adtv ss sr src\<close> is
  \<^verbatim>\<open>createDTFilterRF(adth, adtv, ss, sr, 1)->filter(src, dst)\<close>, \<open>rng_fill state n\<close> is
  \<^verbatim>\<open>rnd.fill(initVec, RNG::UNIFORM, -0.5, 0.5)\<close> on a \<open>1 \<times> n\<close> vector, returning the vector
  and the generator's next state, and \<open>fresh_memory y x\<close> is the content an allocation
  leaves at row \<open>y\<close>, column \<open>x\<close> of a new buffer.
\<close>

record cv_prims =
  cv_resize :: "plane \<Rightarrow> cvSize \<Rightarrow> real \<Rightarrow> real \<Rightarrow> plane"
  dtf_filter :: "plane \<Rightarrow> plane \<Rightarrow> real \<Rightarrow> real \<Rightarrow> plane \<Rightarrow> plane"
  rng_fill :: "64 word \<Rightarrow> nat \<Rightarrow> real list \<times> 64 word"
  fresh_memory :: "nat \<Rightarrow> nat \<Rightarrow> real"

text \<open>\<^verbatim>\<open>Mat::create(size, CV_32FC1)\<close>: a buffer of that size already is kept with its
  content, any other is replaced by a new one whose content nobody wrote.\<close>

definition mat_create :: "cv_prims \<Rightarrow> cvSize \<Rightarrow> plane \<Rightarrow> plane" where
  "mat_create P sz old =
     (if is_mat sz old then old
      else map (\<lambda>y. map (\<lambda>x. fresh_memory P y x) [0..<width sz]) [0..<height sz])"


section \<open>Machine arithmetic\<close>

text \<open>\<^verbatim>\<open>cvRound\<close> rounds to the nearest integer, a tie to the even one.\<close>

definition cvRound :: "real \<Rightarrow> int" where
  "cvRound x =
     (let f = \<lfloor>x\<rfloor>; d = x - of_int f
      in if d < 1 / 2 then f else if 1 / 2 < d then f + 1 else if even f then f else f + 1)"

text \<open>
  \<open>fl p emin x\<close> is \<open>x\<close> rounded to the nearest number \<open>m \<cdot> 2\<^sup>e\<close> with a significand \<open>m\<close> of
  \<open>p\<close> bits and \<open>e \<ge> emin - (p - 1)\<close>, a tie to the even significand: the rounding of IEEE
  754 with gradual underflow. \<open>fl_exp p emin x\<close> is the exponent of the last bit of the
  significand at \<open>x\<close>. \<open>f32\<close> rounds to binary32 (\<^verbatim>\<open>float\<close>) and \<open>f64\<close> to binary64
  (\<^verbatim>\<open>double\<close>).

  The operations of the parameter resolution, of \<^verbatim>\<open>compute_w_k\<close>, of the elementwise
  primitives, of \<^verbatim>\<open>gatherResult\<close>, of the domain-transform tables, of the power iteration
  and of the seeding round as the code does, one rounding per operation. The exponent
  is not bounded above: the infinities and NaN are not modelled, and the statements that
  depend on it bound their inputs. The C library's \<^verbatim>\<open>log\<close> and \<^verbatim>\<open>sqrt\<close> and the image library's
  \<^verbatim>\<open>cv::exp\<close> are taken as correctly rounded (an exponential that is accurate to the last
  place only, or that returns 0 in place of a subnormal number, differs from \<open>f32 (exp x)\<close>
  by that much). \<^verbatim>\<open>h_filter\<close> with its row helper
  \<^verbatim>\<open>rf_vert_row_pass\<close> is kept in exact arithmetic (what is stated of it is stated of real
  arithmetic), and so are the norm and the matrix product of the library.
\<close>

definition fl_exp :: "nat \<Rightarrow> int \<Rightarrow> real \<Rightarrow> int" where
  "fl_exp p emin x = max \<lfloor>log 2 \<bar>x\<bar>\<rfloor> emin - (int p - 1)"

definition fl :: "nat \<Rightarrow> int \<Rightarrow> real \<Rightarrow> real" where
  "fl p emin x =
     (if x = 0 then 0
      else of_int (cvRound (x / 2 powr of_int (fl_exp p emin x))) *
             2 powr of_int (fl_exp p emin x))"

definition f32 :: "real \<Rightarrow> real" where
  "f32 = fl 24 (- 126)"

definition f64 :: "real \<Rightarrow> real" where
  "f64 = fl 53 (- 1022)"


section \<open>Row helpers of \<^verbatim>\<open>edgeaware_filters_common.hpp\<close>\<close>

text \<open>
  Modelled from the spec: the row helpers \<^verbatim>\<open>sqr_dif\<close>, \<^verbatim>\<open>add_sqr_dif\<close>, \<^verbatim>\<open>min_\<close>, \<^verbatim>\<open>mul\<close>,
  \<^verbatim>\<open>mad\<close>, \<^verbatim>\<open>sqrt_\<close> and \<^verbatim>\<open>rf_vert_row_pass\<close> are declared in
  \<^verbatim>\<open>edgeaware_filters_common.hpp\<close>, which is not among the sources. The spec fixes what
  they compute: the squared distance \<open>\<Sigma>\<^sub>c (eta_k_c(p) - joint_c(p))\<^sup>2\<close> and the running
  minimum of section 4.3, the edge weight \<open>exp(ln_alpha \<cdot> sqrt(1 + ratio \<cdot> d))\<close> of section 4.4
  and the row-pass relation \<open>cur[x] = cur[x] + a \<cdot> (prev[x] - cur[x])\<close> of section 4.2. Each
  writes the first \<open>w\<close> entries of \<open>dst\<close> and leaves the rest of the buffer alone. They
  work on \<^verbatim>\<open>float\<close>: but for \<open>rf_vert_row_pass\<close>, every operation rounds to binary32
  (\<open>sqd a b\<close> is the squared difference, the difference rounded before it is squared).
  (\<open>min_row\<close> and \<open>sqrt_row\<close> stand for \<^verbatim>\<open>min_\<close> and \<^verbatim>\<open>sqrt_\<close>: a name cannot end in
  an underscore here.)
\<close>

definition sqd :: "real \<Rightarrow> real \<Rightarrow> real" where
  "sqd a b = f32 (f32 (a - b) * f32 (a - b))"

definition sqr_dif :: "real list \<Rightarrow> real list \<Rightarrow> real list \<Rightarrow> nat \<Rightarrow> real list" where
  "sqr_dif dst a b w = map (\<lambda>j. sqd (a ! j) (b ! j)) [0..<w] @ drop w dst"

definition add_sqr_dif :: "real list \<Rightarrow> real list \<Rightarrow> real list \<Rightarrow> nat \<Rightarrow> real list" where
  "add_sqr_dif dst a b w = map (\<lambda>j. f32 (dst ! j + sqd (a ! j) (b ! j))) [0..<w] @ drop w dst"

definition min_row :: "real list \<Rightarrow> real list \<Rightarrow> real list \<Rightarrow> nat \<Rightarrow> real list" where
  "min_row dst a b w = map (\<lambda>j. min (a ! j) (b ! j)) [0..<w] @ drop w dst"

definition mul :: "real list \<Rightarrow> real list \<Rightarrow> real \<Rightarrow> nat \<Rightarrow> real list" where
  "mul dst a k w = map (\<lambda>j. f32 (a ! j * k)) [0..<w] @ drop w dst"

definition mad :: "real list \<Rightarrow> real list \<Rightarrow> real \<Rightarrow> real \<Rightarrow> nat \<Rightarrow> real list" where
  "mad dst a alpha beta w = map (\<lambda>j. f32 (f32 (alpha * a ! j) + beta)) [0..<w] @ drop w dst"

definition sqrt_row :: "real list \<Rightarrow> real list \<Rightarrow> nat \<Rightarrow> real list" where
  "sqrt_row dst a w = map (\<lambda>j. f32 (sqrt (a ! j))) [0..<w] @ drop w dst"

definition rf_vert_row_pass :: "real list \<Rightarrow> real list \<Rightarrow> real \<Rightarrow> nat \<Rightarrow> real list" where
  "rf_vert_row_pass cur prev a w =
     map (\<lambda>j. cur ! j + a * (prev ! j - cur ! j)) [0..<w] @ drop w cur"

section \<open>\<^verbatim>\<open>h_filter\<close>: the separable recursive low-pass\<close>

text \<open>
  The two inner loops of a row. \<open>h_row_forward\<close> is
  \<^verbatim>\<open>for (x = 1; x < cols; ++x) dst_row[x] = src_row[x] + a * (dst_row[x-1] - src_row[x])\<close>;
  \<open>h_row_backward a d n\<close> runs the \<open>n\<close> last steps of
  \<^verbatim>\<open>for (x = cols - 2; x >= 0; --x) dst_row[x] = dst_row[x] + a * (dst_row[x+1] - dst_row[x])\<close>,
  those with \<open>x = n - 1, \<dots>, 0\<close>.
\<close>

definition h_row_forward :: "real \<Rightarrow> real list \<Rightarrow> real list \<Rightarrow> nat \<Rightarrow> real list" where
  "h_row_forward a src_row dst_row cols =
     foldl (\<lambda>d x. d[x := src_row ! x + a * (d ! (x - 1) - src_row ! x)]) dst_row [1..<cols]"

primrec h_row_backward :: "real \<Rightarrow> real list \<Rightarrow> nat \<Rightarrow> real list" where
  "h_row_backward a d 0 = d"
| "h_row_backward a d (Suc x) = h_row_backward a (d[x := d ! x + a * (d ! Suc x - d ! x)]) x"

definition h_row :: "real \<Rightarrow> real list \<Rightarrow> real list \<Rightarrow> nat \<Rightarrow> real list" where
  "h_row a src_row dst_row cols =
     h_row_backward a (h_row_forward a src_row (dst_row[0 := src_row ! 0]) cols) (cols - 1)"

text \<open>The loop over the rows, \<^verbatim>\<open>for (y = 0; y < src.rows; ++y)\<close>.\<close>

definition h_rows :: "real \<Rightarrow> plane \<Rightarrow> plane \<Rightarrow> plane" where
  "h_rows a src dst =
     foldl (\<lambda>d y. d[y := h_row a (src ! y) (d ! y) (mat_cols src)]) dst [0..<length src]"

text \<open>The two loops over the rows that filter the columns: forward from row 1, then
  backward from the last row but one (\<open>h_cols_backward a d cols n\<close> runs the steps with
  \<open>y = n - 1, \<dots>, 0\<close>).\<close>

definition h_cols_forward :: "real \<Rightarrow> plane \<Rightarrow> nat \<Rightarrow> nat \<Rightarrow> plane" where
  "h_cols_forward a dst cols rows =
     foldl (\<lambda>d y. d[y := rf_vert_row_pass (d ! y) (d ! (y - 1)) a cols]) dst [1..<rows]"

primrec h_cols_backward :: "real \<Rightarrow> plane \<Rightarrow> nat \<Rightarrow> nat \<Rightarrow> plane" where
  "h_cols_backward a d cols 0 = d"
| "h_cols_backward a d cols (Suc y) =
     h_cols_backward a (d[y := rf_vert_row_pass (d ! y) (d ! Suc y) a cols]) cols y"

text \<open>\<open>h_filter P src dst sigma\<close> is the call \<^verbatim>\<open>h_filter(src, dst, sigma)\<close> on two distinct
  buffers, \<open>dst\<close> being what the destination held before the call.\<close>

definition h_filter_rows :: "cv_prims \<Rightarrow> plane \<Rightarrow> plane \<Rightarrow> real \<Rightarrow> plane" where
  "h_filter_rows P src dst sigma =
     h_rows (exp (- sqrt 2 / sigma)) src (mat_create P (mat_size src) dst)"

definition h_filter :: "cv_prims \<Rightarrow> plane \<Rightarrow> plane \<Rightarrow> real \<Rightarrow> plane" where
  "h_filter P src dst sigma =
     (let a = exp (- sqrt 2 / sigma);
          d = h_filter_rows P src dst sigma;
          d = h_cols_forward a d (mat_cols src) (length src)
      in h_cols_backward a d (mat_cols src) (length src - 1))"

text \<open>
  \<^verbatim>\<open>computeEta\<close> calls \<^verbatim>\<open>h_filter(m, m, sigma)\<close>: source and destination are one buffer,
  \<^verbatim>\<open>create\<close> changes nothing and \<^verbatim>\<open>src_row[x]\<close> reads what the destination holds.
\<close>

definition h_row_inplace :: "real \<Rightarrow> real list \<Rightarrow> nat \<Rightarrow> real list" where
  "h_row_inplace a row cols =
     h_row_backward a
       (foldl (\<lambda>d x. d[x := d ! x + a * (d ! (x - 1) - d ! x)]) (row[0 := row ! 0]) [1..<cols])
       (cols - 1)"

definition h_filter_inplace :: "plane \<Rightarrow> real \<Rightarrow> plane" where
  "h_filter_inplace m sigma =
     (let a = exp (- sqrt 2 / sigma);
          cols = mat_cols m;
          rows = length m;
          d = foldl (\<lambda>d y. d[y := h_row_inplace a (d ! y) cols]) m [0..<rows];
          d = h_cols_forward a d cols rows
      in h_cols_backward a d cols (rows - 1))"

text \<open>The recurrences of the spec, section 4.2, for one line \<open>x\<close> of \<open>n\<close> samples:
  \<open>y[0] = x[0]\<close>, \<open>y[i] = x[i] + a \<cdot> (y[i-1] - x[i])\<close>, and then, from the right,
  \<open>y[i] = y[i] + a \<cdot> (y[i+1] - y[i])\<close>; \<open>spec_backward a x n i\<close> is the final \<open>y[i]\<close>.\<close>

primrec spec_forward :: "real \<Rightarrow> real list \<Rightarrow> nat \<Rightarrow> real" where
  "spec_forward a x 0 = x ! 0"
| "spec_forward a x (Suc i) = x ! Suc i + a * (spec_forward a x i - x ! Suc i)"

function spec_backward :: "real \<Rightarrow> real list \<Rightarrow> nat \<Rightarrow> nat \<Rightarrow> real" where
  "spec_backward a x n i =
     (if Suc i < n
      then spec_forward a x i + a * (spec_backward a x n (Suc i) - spec_forward a x i)
      else spec_forward a x i)"
  by pat_completeness auto
termination
  by (relation "measure (\<lambda>(a, x, n, i). n - i)") auto


section \<open>Elementwise primitives\<close>

text \<open>
  \<^verbatim>\<open>cv::multiply\<close>, \<^verbatim>\<open>add\<close>, \<^verbatim>\<open>subtract\<close>, \<^verbatim>\<open>divide\<close> and \<^verbatim>\<open>exp\<close> work entry by entry.
  The library refuses operands of different sizes; every call of the filter passes planes
  of one size (as long as \<open>cv_resize\<close> returns the size it is asked for), so the model
  pairs the entries and does not model the refusal. \<^verbatim>\<open>cv::divide\<close> of the library version
  the filter was written for stores 0 where the divisor is 0. On \<^verbatim>\<open>CV_32F\<close> planes each
  works in binary32; a \<^verbatim>\<open>double\<close> scalar operand is converted to \<^verbatim>\<open>float\<close> first
  (\<open>cv_scale\<close>, which is also \<^verbatim>\<open>convertTo\<close> with a scale factor).
\<close>

definition mat_binop :: "(real \<Rightarrow> real \<Rightarrow> real) \<Rightarrow> plane \<Rightarrow> plane \<Rightarrow> plane" where
  "mat_binop f a b = map2 (map2 f) a b"

definition cv_div :: "real \<Rightarrow> real \<Rightarrow> real" where
  "cv_div x y = (if y = 0 then 0 else x / y)"

definition cv_multiply :: "plane \<Rightarrow> plane \<Rightarrow> plane" where
  "cv_multiply = mat_binop (\<lambda>x y. f32 (x * y))"

definition cv_add :: "plane \<Rightarrow> plane \<Rightarrow> plane" where
  "cv_add = mat_binop (\<lambda>x y. f32 (x + y))"

definition cv_subtract :: "plane \<Rightarrow> plane \<Rightarrow> plane" where
  "cv_subtract = mat_binop (\<lambda>x y. f32 (x - y))"

definition cv_divide :: "plane \<Rightarrow> plane \<Rightarrow> plane" where
  "cv_divide = mat_binop (\<lambda>x y. f32 (cv_div x y))"

definition cv_scale :: "plane \<Rightarrow> real \<Rightarrow> plane" where
  "cv_scale a k = map (map (\<lambda>v. f32 (v * f32 k))) a"

definition cv_exp :: "plane \<Rightarrow> plane" where
  "cv_exp a = map (map (\<lambda>v. f32 (exp v))) a"

definition mat_zeros :: "cvSize \<Rightarrow> plane" where
  "mat_zeros sz = replicate (height sz) (replicate (width sz) 0)"

text \<open>\<^verbatim>\<open>saturate_cast\<close> of a \<^verbatim>\<open>float\<close> to an integer depth rounds with \<^verbatim>\<open>cvRound\<close> and
  clamps to the range of the depth (for a value of magnitude below \<open>2\<^sup>3\<^sup>1\<close>, where \<^verbatim>\<open>cvRound\<close>
  is defined).\<close>

definition clamp :: "int \<Rightarrow> int \<Rightarrow> int \<Rightarrow> int" where
  "clamp lo hi v = max lo (min hi v)"

fun saturate_cast :: "depth \<Rightarrow> real \<Rightarrow> real" where
  "saturate_cast CV_8U v = of_int (clamp 0 255 (cvRound v))"
| "saturate_cast CV_8S v = of_int (clamp (- 128) 127 (cvRound v))"
| "saturate_cast CV_16U v = of_int (clamp 0 65535 (cvRound v))"
| "saturate_cast CV_16S v = of_int (clamp (- 32768) 32767 (cvRound v))"
| "saturate_cast CV_32S v = of_int (clamp (- 2147483648) 2147483647 (cvRound v))"
| "saturate_cast CV_32F v = v"
| "saturate_cast CV_64F v = v"

definition convertTo :: "plane \<Rightarrow> depth \<Rightarrow> plane" where
  "convertTo m d = map (map (saturate_cast d)) m"

text \<open>\<^verbatim>\<open>divide(a, b, dst, 1.0, dtype)\<close> with an output depth: the library divides in
  \<^verbatim>\<open>double\<close> for the depth \<^verbatim>\<open>CV_64F\<close>, and in \<^verbatim>\<open>float\<close>, casting the quotient, for the
  others.\<close>

definition cv_divide_to :: "depth \<Rightarrow> plane \<Rightarrow> plane \<Rightarrow> plane" where
  "cv_divide_to d =
     mat_binop (\<lambda>x y. if d = CV_64F then f64 (cv_div x y) else saturate_cast d (f32 (cv_div x y)))"

text \<open>\<^verbatim>\<open>cv::split\<close> clears the vector for an empty array and \<^verbatim>\<open>cv::merge\<close> puts planes
  together; \<^verbatim>\<open>vector::resize\<close> appends empty matrices or cuts the vector.\<close>

definition cv_split :: "image \<Rightarrow> plane list" where
  "cv_split img = (if im_empty img then [] else im_data img)"

definition cv_merge :: "plane list \<Rightarrow> depth \<Rightarrow> image" where
  "cv_merge planes d =
     \<lparr>im_size = (case planes of [] \<Rightarrow> \<lparr>width = 0, height = 0\<rparr> | m # _ \<Rightarrow> mat_size m),
      im_depth = d, im_channels = length planes, im_data = planes\<rparr>"

definition vec_resize :: "nat \<Rightarrow> plane list \<Rightarrow> plane list" where
  "vec_resize n v = take n v @ replicate (n - length v) []"

text \<open>Reading \<^verbatim>\<open>v[i]\<close> or \<^verbatim>\<open>m.at<float>(y, x)\<close> outside the container is undefined in
  C++; where the filter can do it on an input it accepts, the model returns \<open>OutOfRange\<close>.\<close>

definition vec_at :: "'a list \<Rightarrow> nat \<Rightarrow> error + 'a" where
  "vec_at v i = (if i < length v then Inr (v ! i) else Inl OutOfRange)"

definition mat_at :: "plane \<Rightarrow> nat \<Rightarrow> nat \<Rightarrow> error + real" where
  "mat_at m y x = (if y < length m \<and> x < length (m ! y) then Inr (m ! y ! x) else Inl OutOfRange)"

section \<open>The filter object\<close>

text \<open>
  The class \<^verbatim>\<open>AdaptiveManifoldFilterN\<close>: its six parameters (the members \<^verbatim>\<open>sigma_s_\<close>,
  \<^verbatim>\<open>sigma_r_\<close>, \<^verbatim>\<open>tree_height_\<close>, \<^verbatim>\<open>num_pca_iterations_\<close>, \<^verbatim>\<open>adjust_outliers_\<close> without
  their final underscore, and \<^verbatim>\<open>useRNG\<close>) and its private buffers. Each member function
  takes the object and returns it updated.
\<close>

record amf =
  adjust_outliers :: bool
  sigma_s :: real
  sigma_r :: real
  tree_height :: int
  num_pca_iterations :: int
  useRNG :: bool
  srcSize :: cvSize
  smallSize :: cvSize
  jointCnNum :: nat
  srcCnNum :: nat
  jointCn :: "plane list"
  srcCn :: "plane list"
  etaFull :: "plane list"
  sum_w_ki_Psi_blur :: "plane list"
  sum_w_ki_Psi_blur_0 :: plane
  w_k :: plane
  Psi_splat_0_small :: plane
  Psi_splat_small :: "plane list"
  minDistToManifoldSquared :: plane
  curTreeHeight :: int
  sigma_r_over_sqrt_2 :: real
  rnd :: "64 word"

subsection \<open>Parameter resolution and scale\<close>

text \<open>\<open>c_log\<close> is \<^verbatim>\<open>log\<close> of the C library on \<^verbatim>\<open>double\<close>. \<^verbatim>\<open>pow(2.0, k)\<close> is exact for an
  integer \<open>k\<close>, and so are the division by 4 and the product with 256 of
  \<^verbatim>\<open>getResizeRatio\<close>.\<close>

definition c_log :: "real \<Rightarrow> real" where
  "c_log x = f64 (ln x)"

definition Log2 :: "real \<Rightarrow> real" where
  "Log2 n = f64 (c_log n / c_log 2)"

definition floor_to_power_of_two :: "real \<Rightarrow> real" where
  "floor_to_power_of_two r = 2 powr of_int \<lfloor>Log2 r\<rfloor>"

definition computeManifoldTreeHeight :: "real \<Rightarrow> real \<Rightarrow> int" where
  "computeManifoldTreeHeight ss sr =
     (let Hs = of_int \<lfloor>Log2 ss\<rfloor> - 1;
          Lr = f64 (1 - sr)
      in max 2 \<lceil>f64 (Hs * Lr)\<rceil>)"

definition getNormalizer :: "depth \<Rightarrow> real" where
  "getNormalizer d = (if d = CV_8U then 1 / 255 else if d = CV_16U then 1 / 65535 else 1)"

definition getResizeRatio :: "amf \<Rightarrow> real" where
  "getResizeRatio st =
     max 1 (floor_to_power_of_two (min (sigma_s st / 4) (256 * sigma_r st)))"

definition getSmallSize :: "amf \<Rightarrow> cvSize" where
  "getSmallSize st =
     (let df = getResizeRatio st
      in \<lparr>width = nat (cvRound (real (width (srcSize st)) * (1 / df))),
          height = nat (cvRound (real (height (srcSize st)) * (1 / df)))\<rparr>)"

text \<open>The library's \<^verbatim>\<open>resize\<close> throws when its source or its target is empty. \<open>cv_resize\<close>
  is a total function: the model follows a call of \<^verbatim>\<open>filter\<close> as long as no \<^verbatim>\<open>resize\<close>
  throws, and says nothing about whether one does.\<close>

definition downsample :: "cv_prims \<Rightarrow> amf \<Rightarrow> plane \<Rightarrow> plane" where
  "downsample P st src =
     (let df = getResizeRatio st
      in cv_resize P src \<lparr>width = 0, height = 0\<rparr> (1 / df) (1 / df))"

definition upsample :: "cv_prims \<Rightarrow> amf \<Rightarrow> plane \<Rightarrow> plane" where
  "upsample P st src = cv_resize P src (srcSize st) 0 0"

subsection \<open>\<^verbatim>\<open>compute_w_k\<close>\<close>

text \<open>The loop over the guide channels of row \<open>i\<close>: \<^verbatim>\<open>sqr_dif\<close> for channel 0,
  \<^verbatim>\<open>add_sqr_dif\<close> for the others.\<close>

definition dist_row :: "amf \<Rightarrow> plane list \<Rightarrow> real list \<Rightarrow> nat \<Rightarrow> real list" where
  "dist_row st etak dstRow i =
     foldl (\<lambda>d cn.
         if cn = 0 then sqr_dif d (etak ! cn ! i) (jointCn st ! cn ! i) (width (srcSize st))
         else add_sqr_dif d (etak ! cn ! i) (jointCn st ! cn ! i) (width (srcSize st)))
       dstRow [0..<jointCnNum st]"

text \<open>The body of the loop over the rows, on the pair of \<^verbatim>\<open>dst\<close> and
  \<^verbatim>\<open>minDistToManifoldSquared\<close>; the \<^verbatim>\<open>memcpy\<close> copies \<open>width\<close> floats.\<close>

definition compute_w_k_row ::
  "amf \<Rightarrow> plane list \<Rightarrow> real \<Rightarrow> int \<Rightarrow> plane \<times> plane \<Rightarrow> nat \<Rightarrow> plane \<times> plane" where
  "compute_w_k_row st etak argConst curTreeLevel dm i =
     (let w = width (srcSize st);
          dst = fst dm;
          minDist = snd dm;
          dstRow = dist_row st etak (dst ! i) i;
          minDist =
            (if adjust_outliers st then
               (if curTreeLevel \<noteq> 1
                then minDist[i := min_row (minDist ! i) (minDist ! i) dstRow w]
                else minDist[i := take w dstRow @ drop w (minDist ! i)])
             else minDist);
          dstRow = mul dstRow dstRow argConst w
      in (dst[i := dstRow], minDist))"

definition compute_w_k ::
  "cv_prims \<Rightarrow> amf \<Rightarrow> plane list \<Rightarrow> plane \<Rightarrow> real \<Rightarrow> int \<Rightarrow> plane \<times> amf" where
  "compute_w_k P st etak dst sigma curTreeLevel =
     (let dst = mat_create P (srcSize st) dst;
          argConst = f32 (- 0.5 / f32 (sigma * sigma));
          dm = foldl (compute_w_k_row st etak argConst curTreeLevel)
                 (dst, minDistToManifoldSquared st) [0..<height (srcSize st)]
      in (cv_exp (fst dm), st\<lparr>minDistToManifoldSquared := snd dm\<rparr>))"

text \<open>The squared distance of the spec, section 4.3, at the pixel in row \<open>i\<close> and
  column \<open>j\<close>, \<open>d2(p) = \<Sigma>\<^sub>c (eta_k_c(p) - joint_c(p))\<^sup>2\<close> over the guide channels, as the loop
  accumulates it in binary32, channel after channel.\<close>

definition dist2 :: "amf \<Rightarrow> plane list \<Rightarrow> nat \<Rightarrow> nat \<Rightarrow> real" where
  "dist2 st etak i j =
     foldl (\<lambda>d c. if c = 0 then sqd (etak ! c ! i ! j) (jointCn st ! c ! i ! j)
                   else f32 (d + sqd (etak ! c ! i ! j) (jointCn st ! c ! i ! j)))
       0 [0..<jointCnNum st]"



subsection \<open>\<^verbatim>\<open>gatherResult\<close>\<close>

definition gatherResult :: "amf \<Rightarrow> image \<Rightarrow> image \<times> amf" where
  "gatherResult st src =
     (let dDepth = im_depth src in
      if \<not> adjust_outliers st then
        (let dstCn = map (\<lambda>i. cv_divide_to dDepth
                       (sum_w_ki_Psi_blur st ! i) (sum_w_ki_Psi_blur_0 st))
                     [0..<srcCnNum st]
         in (cv_merge dstCn dDepth, st))
      else
        (let sigmaMember = f64 (- 0.5 / f64 (sigma_r st * sigma_r st));
             alpha = cv_exp (cv_scale (minDistToManifoldSquared st) sigmaMember);
             st = st\<lparr>minDistToManifoldSquared := alpha\<rparr>;
             dstCn = map (\<lambda>i.
                       let f = srcCn st ! i;
                           g = cv_divide (sum_w_ki_Psi_blur st ! i) (sum_w_ki_Psi_blur_0 st);
                           g = cv_subtract g f;
                           g = cv_multiply alpha g;
                           g = cv_add g f
                       in convertTo g dDepth)
                     [0..<srcCnNum st]
         in (cv_merge dstCn dDepth, st)))"


subsection \<open>The domain-transform pass\<close>

text \<open>The edge tables of the planes \<open>planes\<close> (the parameter \<^verbatim>\<open>srcCn\<close> of the source):
  \<^verbatim>\<open>curCnRow + 1\<close> is the row without its first entry, and the vertical table pairs row
  \<open>i\<close> with row \<open>i + 1\<close>.\<close>

definition dt_row :: "real list \<Rightarrow> real \<Rightarrow> real \<Rightarrow> nat \<Rightarrow> real list" where
  "dt_row dstRow sigmaRatioSqr lnAlpha w =
     (let dstRow = mad dstRow dstRow sigmaRatioSqr 1 w;
          dstRow = sqrt_row dstRow dstRow w
      in mul dstRow dstRow lnAlpha w)"

definition computeDTHor :: "cv_prims \<Rightarrow> plane list \<Rightarrow> real \<Rightarrow> real \<Rightarrow> plane" where
  "computeDTHor P planes ss sr =
     (let cnNum = length planes;
          h = length (planes ! 0);
          w = mat_cols (planes ! 0);
          sigmaRatioSqr = f32 (f32 (ss / sr) * f32 (ss / sr));
          lnAlpha = f32 (f64 (- f64 (sqrt 2) / ss));
          dst = mat_create P \<lparr>width = w - 1, height = h\<rparr> []
      in cv_exp (foldl (\<lambda>dst i.
           let dstRow = foldl (\<lambda>d cn.
                 let curCnRow = planes ! cn ! i in
                 if cn = 0 then sqr_dif d curCnRow (drop 1 curCnRow) (w - 1)
                 else add_sqr_dif d curCnRow (drop 1 curCnRow) (w - 1))
               (dst ! i) [0..<cnNum]
           in dst[i := dt_row dstRow sigmaRatioSqr lnAlpha (w - 1)])
         dst [0..<h]))"

definition computeDTVer :: "cv_prims \<Rightarrow> plane list \<Rightarrow> real \<Rightarrow> real \<Rightarrow> plane" where
  "computeDTVer P planes ss sr =
     (let cnNum = length planes;
          h = length (planes ! 0);
          w = mat_cols (planes ! 0);
          dst = mat_create P \<lparr>width = w, height = h - 1\<rparr> [];
          sigmaRatioSqr = f32 (f32 (ss / sr) * f32 (ss / sr));
          lnAlpha = f32 (f64 (- f64 (sqrt 2) / ss))
      in cv_exp (foldl (\<lambda>dst i.
           let dstRow = foldl (\<lambda>d cn.
                 let srcRow1 = planes ! cn ! i;
                     srcRow2 = planes ! cn ! (i + 1) in
                 if cn = 0 then sqr_dif d srcRow1 srcRow2 w
                 else add_sqr_dif d srcRow1 srcRow2 w)
               (dst ! i) [0..<cnNum]
           in dst[i := dt_row dstRow sigmaRatioSqr lnAlpha w])
         dst [0..<h - 1]))"

text \<open>\<^verbatim>\<open>RFFilterPass\<close> returns the filtered planes and the filtered weight plane (the
  caller passes its own buffers as the destinations).\<close>

definition RFFilterPass ::
  "cv_prims \<Rightarrow> plane list \<Rightarrow> plane list \<Rightarrow> plane \<Rightarrow> real \<Rightarrow> real \<Rightarrow> plane list \<times> plane" where
  "RFFilterPass P joint Psi_splat Psi_splat_0 ss sr =
     (let adth = computeDTHor P joint ss sr;
          adtv = computeDTVer P joint ss sr
      in (map (\<lambda>cn. dtf_filter P adth adtv ss sr (Psi_splat ! cn)) [0..<length Psi_splat],
          dtf_filter P adth adtv ss sr Psi_splat_0))"

subsection \<open>Clustering\<close>

text \<open>One power iteration of \<^verbatim>\<open>computeEigenVector\<close>: \<open>X\<close> has one row per pixel (in
  row-major order) and one column per guide channel; the mask is read in the same order.
  \<open>dots\<close> is the \<^verbatim>\<open>float\<close> accumulator of the inner loop; \<open>dot\<close> is the product of a row with
  a vector as the library's \<^verbatim>\<open>gemm\<close> forms it, taken exact.\<close>

definition dot :: "real list \<Rightarrow> real list \<Rightarrow> nat \<Rightarrow> real" where
  "dot u v n = foldl (\<lambda>dots c. dots + u ! c * v ! c) 0 [0..<n]"

definition dots :: "real list \<Rightarrow> real list \<Rightarrow> nat \<Rightarrow> real" where
  "dots u v n = foldl (\<lambda>d c. f32 (d + f32 (u ! c * v ! c))) 0 [0..<n]"

definition pca_iteration :: "real list list \<Rightarrow> mask \<Rightarrow> real list \<Rightarrow> real list" where
  "pca_iteration X cmask dst =
     (let cols = mat_cols X;
          t = map (\<lambda>ind.
                if ind < length (concat cmask) \<and> concat cmask ! ind \<noteq> 0
                then (let d = dots dst (X ! ind) cols
                      in map (\<lambda>c. f32 (d * X ! ind ! c)) [0..<cols])
                else replicate cols 0)
              [0..<length X]
      in foldl (\<lambda>dst k. map (\<lambda>c. f32 (dst ! c + t ! k ! c)) [0..<cols]) (replicate cols 0)
           [0..<length X])"

text \<open>\<^verbatim>\<open>norm\<close> accumulates the squares in \<^verbatim>\<open>double\<close>, where the square of a non-zero
  \<^verbatim>\<open>float\<close> is not 0: it returns 0 exactly when every entry is 0, as the exact norm does.
  \<^verbatim>\<open>divide(dst, n, dst)\<close> converts the scalar to \<^verbatim>\<open>float\<close> and divides in binary32.\<close>

definition cv_norm :: "real list \<Rightarrow> real" where
  "cv_norm v = sqrt (foldl (\<lambda>s x. s + x * x) 0 v)"

definition computeEigenVector ::
  "real list list \<Rightarrow> mask \<Rightarrow> int \<Rightarrow> real list \<Rightarrow> real list" where
  "computeEigenVector X cmask num_pca rand_vec =
     (let dst = ((pca_iteration X cmask) ^^ nat num_pca) rand_vec;
          n = cv_norm dst
      in map (\<lambda>v. f32 (cv_div v (f32 n))) dst)"

text \<open>\<^verbatim>\<open>computeClusters\<close>. \<open>difEtaSrc\<close> is the merged difference reshaped to one row per
  pixel; \<open>initVec\<close> is the start of the power iteration, with the generator's next state;
  \<open>difOreientation\<close> (the source's spelling) is the product with the eigenvector, reshaped
  to the size of the image.\<close>

definition difEtaSrc :: "amf \<Rightarrow> real list list" where
  "difEtaSrc st =
     (let eta_difCn = map (\<lambda>i. cv_subtract (jointCn st ! i) (etaFull st ! i)) [0..<jointCnNum st]
      in concat (map (\<lambda>y. map (\<lambda>x. map (\<lambda>c. eta_difCn ! c ! y ! x) [0..<jointCnNum st])
                              [0..<width (srcSize st)])
                     [0..<height (srcSize st)]))"

definition initVec :: "cv_prims \<Rightarrow> amf \<Rightarrow> real list \<times> 64 word" where
  "initVec P st =
     (if useRNG st then rng_fill P (rnd st) (jointCnNum st)
      else (map (\<lambda>i. if i mod 2 = 0 then 0.5 else - 0.5) [0..<jointCnNum st], rnd st))"

definition eigenVec :: "cv_prims \<Rightarrow> amf \<Rightarrow> mask \<Rightarrow> real list" where
  "eigenVec P st cluster =
     computeEigenVector (difEtaSrc st) cluster (num_pca_iterations st) (fst (initVec P st))"

definition difOreientation :: "cv_prims \<Rightarrow> amf \<Rightarrow> mask \<Rightarrow> plane" where
  "difOreientation P st cluster =
     (let flat = map (\<lambda>r. dot r (eigenVec P st cluster) (jointCnNum st)) (difEtaSrc st);
          w = width (srcSize st)
      in map (\<lambda>y. take w (drop (y * w) flat)) [0..<height (srcSize st)])"

definition compare_LT :: "plane \<Rightarrow> real \<Rightarrow> mask" where
  "compare_LT m v = map (map (\<lambda>a. if a < v then 255 else 0)) m"

definition compare_GE :: "plane \<Rightarrow> real \<Rightarrow> mask" where
  "compare_GE m v = map (map (\<lambda>a. if v \<le> a then 255 else 0)) m"

definition bitwise_and :: "mask \<Rightarrow> mask \<Rightarrow> mask" where
  "bitwise_and a b = map2 (map2 (\<lambda>x y. x AND y)) a b"

definition computeClusters :: "cv_prims \<Rightarrow> amf \<Rightarrow> mask \<Rightarrow> mask \<times> mask \<times> amf" where
  "computeClusters P st cluster =
     (let ori = difOreientation P st cluster;
          cluster_minus = bitwise_and (compare_LT ori 0) cluster;
          cluster_plus = bitwise_and (compare_GE ori 0) cluster
      in (cluster_minus, cluster_plus, st\<lparr>rnd := snd (initVec P st)\<rparr>))"

subsection \<open>\<^verbatim>\<open>computeEta\<close>\<close>

definition computeEta :: "cv_prims \<Rightarrow> amf \<Rightarrow> plane \<Rightarrow> mask \<Rightarrow> plane list" where
  "computeEta P st teta cluster =
     (let tetaMasked = map (\<lambda>y. map (\<lambda>x. if cluster ! y ! x \<noteq> 0 then teta ! y ! x else 0)
                                   [0..<width (srcSize st)])
                          [0..<height (srcSize st)];
          sigma = f32 (sigma_s st / getResizeRatio st);
          tetaMaskedBlur = h_filter_inplace (downsample P st tetaMasked) sigma
      in map (\<lambda>i. cv_divide
                (h_filter_inplace (downsample P st (cv_multiply tetaMasked (jointCn st ! i))) sigma)
                tetaMaskedBlur)
           [0..<jointCnNum st])"


subsection \<open>The pipeline driver\<close>

text \<open>
  The part of \<^verbatim>\<open>buildManifoldsAndPerformFiltering\<close> before the recursion, for one node of
  the tree: splatting, blurring and slicing. \<^verbatim>\<open>w_k\<close> is passed to \<^verbatim>\<open>compute_w_k\<close> as its
  destination. In the blurring step the source first stores the splatted planes in
  \<^verbatim>\<open>Psi_splat_small\<close> and \<^verbatim>\<open>Psi_splat_0_small\<close> and then lets \<^verbatim>\<open>RFFilterPass\<close> write the
  blurred planes over them; the model names the splatted planes \<open>splat\<close> and \<open>splat_0\<close> and
  stores the blurred ones. Each step reads the members as they are when it starts and
  writes its results in one update.
\<close>

definition splatting :: "cv_prims \<Rightarrow> amf \<Rightarrow> plane list \<Rightarrow> int \<Rightarrow> amf \<times> plane list" where
  "splatting P st eta treeLevel =
     (let etaSize = mat_size (eta ! 0) in
      if etaSize = srcSize st then
        (let r = compute_w_k P st eta (w_k st) (sigma_r_over_sqrt_2 st) treeLevel
         in ((snd r)\<lparr>w_k := fst r, etaFull := eta\<rparr>, map (downsample P st) eta))
      else
        (let full = map (upsample P st) eta;
             r = compute_w_k P (st\<lparr>etaFull := full\<rparr>) full (w_k st)
                   (sigma_r_over_sqrt_2 st) treeLevel
         in ((snd r)\<lparr>w_k := fst r\<rparr>, eta)))"

definition blurring :: "cv_prims \<Rightarrow> amf \<Rightarrow> plane list \<Rightarrow> amf" where
  "blurring P st eta =
     (let splat = map (\<lambda>si. downsample P st (cv_multiply (srcCn st ! si) (w_k st)))
                    [0..<srcCnNum st];
          splat_0 = downsample P st (w_k st);
          rf_ss = f32 (sigma_s st / getResizeRatio st);
          rf_sr = sigma_r_over_sqrt_2 st;
          r = RFFilterPass P eta splat splat_0 rf_ss rf_sr
      in st\<lparr>Psi_splat_small := fst r, Psi_splat_0_small := snd r\<rparr>)"

definition slicing :: "cv_prims \<Rightarrow> amf \<Rightarrow> amf" where
  "slicing P st =
     st\<lparr>sum_w_ki_Psi_blur :=
          map (\<lambda>i. cv_add (sum_w_ki_Psi_blur st ! i)
                 (cv_multiply (upsample P st (Psi_splat_small st ! i)) (w_k st)))
            [0..<srcCnNum st],
        sum_w_ki_Psi_blur_0 :=
          cv_add (sum_w_ki_Psi_blur_0 st)
            (cv_multiply (upsample P st (Psi_splat_0_small st)) (w_k st))\<rparr>"

definition manifold_node :: "cv_prims \<Rightarrow> amf \<Rightarrow> plane list \<Rightarrow> int \<Rightarrow> amf" where
  "manifold_node P st eta treeLevel =
     (let r = splatting P st eta treeLevel
      in slicing P (blurring P (fst r) (snd r)))"

text \<open>
  The recursion over the manifold tree. \<^verbatim>\<open>curTreeHeight\<close> is written once, by \<^verbatim>\<open>filter\<close>,
  before the first call, so the recursion takes it as the parameter \<open>h\<close>. Besides the
  object, the model returns the nodes it visited, in order: the level and the cluster mask
  of each.
\<close>

function buildManifoldsAndPerformFiltering ::
  "cv_prims \<Rightarrow> int \<Rightarrow> amf \<Rightarrow> plane list \<Rightarrow> mask \<Rightarrow> int \<Rightarrow> amf \<times> (int \<times> mask) list" where
  "buildManifoldsAndPerformFiltering P h st eta cluster treeLevel =
     (let st = manifold_node P st eta treeLevel in
      if treeLevel < h then
        (case computeClusters P st cluster of
           (cluster_minus, cluster_plus, st) \<Rightarrow>
             (let teta = map (map (\<lambda>w. f32 (1 - w))) (w_k st);
                  eta_minus = computeEta P st teta cluster_minus;
                  eta_plus = computeEta P st teta cluster_plus
              in case buildManifoldsAndPerformFiltering P h st eta_minus cluster_minus
                        (treeLevel + 1) of
                   (st, visited_minus) \<Rightarrow>
                     (case buildManifoldsAndPerformFiltering P h st eta_plus cluster_plus
                             (treeLevel + 1) of
                        (st, visited_plus) \<Rightarrow>
                          (st, (treeLevel, cluster) # visited_minus @ visited_plus))))
      else (st, [(treeLevel, cluster)]))"
  by pat_completeness auto
termination
  by (relation "measure (\<lambda>(P, h, st, eta, cluster, treeLevel). nat (h - treeLevel))") auto

text \<open>
  The partition property of the spec, section 8: the pixels of a mask are the positions
  of its non-zero entries; the masks \<open>ms\<close> partition the mask \<open>m\<close> when their pixel sets
  are pairwise disjoint and their union is the pixel set of \<open>m\<close>. \<open>masks_at L visited\<close>
  are the masks of the nodes visited at tree level \<open>L\<close>.
\<close>

definition pixels :: "mask \<Rightarrow> (nat \<times> nat) set" where
  "pixels m =
     set (concat (map (\<lambda>y. map (\<lambda>x. (y, x)) (filter (\<lambda>x. m ! y ! x \<noteq> 0) [0..<length (m ! y)]))
                      [0..<length m]))"

definition masks_partition :: "mask list \<Rightarrow> mask \<Rightarrow> bool" where
  "masks_partition ms m =
     ((\<forall>i<length ms. \<forall>j<length ms. i \<noteq> j \<longrightarrow> pixels (ms ! i) \<inter> pixels (ms ! j) = {}) \<and>
      (\<Union>k<length ms. pixels (ms ! k)) = pixels m)"

definition masks_at :: "int \<Rightarrow> (int \<times> mask) list \<Rightarrow> mask list" where
  "masks_at L visited = map snd (filter (\<lambda>v. fst v = L) visited)"

subsection \<open>\<^verbatim>\<open>filter\<close>\<close>

text \<open>
  A call that throws leaves the object as it was at the throw: a failing member function
  returns the error together with that object. \<open>failure\<close> is the error of a result, if
  any.
\<close>

type_synonym 'a result = "error \<times> amf + 'a"

definition failure :: "'a result \<Rightarrow> error option" where
  "failure r = (case r of Inl e \<Rightarrow> Some (fst e) | Inr v \<Rightarrow> None)"

text \<open>The branch of \<^verbatim>\<open>initSrcAndJoint\<close> that fills \<^verbatim>\<open>jointCnNum\<close> and \<^verbatim>\<open>jointCn\<close>: the values
  it assigns, and the error it throws after assigning them, if any.\<close>

definition initJoint :: "image \<Rightarrow> joint_arg \<Rightarrow> error option \<times> nat \<times> plane list" where
  "initJoint src joint =
     (let fromSrc =
            (None, im_channels src,
             if im_depth src = CV_32F then cv_split src
             else map (\<lambda>i. cv_scale (cv_split src ! i) (getNormalizer (im_depth src)))
                    [0..<im_channels src])
      in case joint of
           JointSameObject \<Rightarrow> fromSrc
         | JointMat j \<Rightarrow>
             if im_empty j then fromSrc
             else
               (case vec_at (cv_split j) 0 of
                  Inl e \<Rightarrow> (Some e, length (cv_split j), cv_split j)
                | Inr joint0 \<Rightarrow>
                    (let jointDepth = im_depth j;
                         jointSize = mat_size joint0
                     in if \<not> (jointSize = im_size src \<and>
                              (jointDepth = CV_8U \<or> jointDepth = CV_16U \<or> jointDepth = CV_32F))
                        then (Some AssertionFailed, length (cv_split j), cv_split j)
                        else if jointDepth \<noteq> CV_32F
                        then (None, length (cv_split j),
                              map (\<lambda>i. cv_scale (cv_split j ! i) (getNormalizer jointDepth))
                                [0..<length (cv_split j)])
                        else (None, length (cv_split j), cv_split j))))"

definition initSrcAndJoint :: "amf \<Rightarrow> image \<Rightarrow> joint_arg \<Rightarrow> amf result" where
  "initSrcAndJoint st src joint =
     (let st = st\<lparr>srcSize := im_size src,
                  smallSize := getSmallSize (st\<lparr>srcSize := im_size src\<rparr>),
                  srcCnNum := im_channels src,
                  srcCn := cv_split src\<rparr>
      in if im_depth src \<noteq> CV_32F \<and> length (cv_split src) < im_channels src
         then Inl (OutOfRange, st)
         else
           (let r = initJoint src joint;
                st = st\<lparr>jointCnNum := fst (snd r), jointCn := snd (snd r)\<rparr>
            in case fst r of Some e \<Rightarrow> Inl (e, st) | None \<Rightarrow> Inr st))"

text \<open>The buffers \<open>initBuffers\<close> sets up once \<open>initSrcAndJoint\<close> has returned; no assignment
  of the sequence reads a member that an earlier one of the sequence wrote.\<close>

definition allocBuffers :: "cv_prims \<Rightarrow> amf \<Rightarrow> amf" where
  "allocBuffers P st =
     st\<lparr>jointCn := vec_resize (jointCnNum st) (jointCn st),
        Psi_splat_small :=
          map (mat_create P (smallSize st)) (vec_resize (jointCnNum st) (Psi_splat_small st)),
        srcCn := vec_resize (srcCnNum st) (srcCn st),
        sum_w_ki_Psi_blur := replicate (srcCnNum st) (mat_zeros (srcSize st)),
        sum_w_ki_Psi_blur_0 := mat_zeros (srcSize st),
        w_k := mat_create P (srcSize st) (w_k st),
        Psi_splat_0_small := mat_create P (smallSize st) (Psi_splat_0_small st),
        minDistToManifoldSquared :=
          (if adjust_outliers st
           then mat_create P (srcSize st) (minDistToManifoldSquared st)
           else minDistToManifoldSquared st)\<rparr>"

definition initBuffers :: "cv_prims \<Rightarrow> amf \<Rightarrow> image \<Rightarrow> joint_arg \<Rightarrow> amf result" where
  "initBuffers P st src joint =
     (case initSrcAndJoint st src joint of
        Inl e \<Rightarrow> Inl e
      | Inr st \<Rightarrow> Inr (allocBuffers P st))"

text \<open>The generator's state after seeding: \<^verbatim>\<open>numeric_limits<uint64>::max() / 0xFFFF\<close> (a
  number \<^verbatim>\<open>double\<close> holds exactly) times the guide value, the product rounded to
  \<^verbatim>\<open>double\<close>, cut to an integer towards zero by \<^verbatim>\<open>static_cast<int64>\<close> and stored in 64
  bits. The cast of a value outside the range of \<^verbatim>\<open>int64\<close> is undefined in C++; the model
  takes what the conversion instruction of x86-64 returns, \<open>- 2\<^sup>6\<^sup>3\<close>.\<close>

definition seedState :: "real \<Rightarrow> 64 word" where
  "seedState seedCoef =
     (let baseCoef = (2 ^ 64 - 1) div (65535 :: int);
          v = f64 (real_of_int baseCoef * seedCoef);
          t = (if 0 \<le> v then \<lfloor>v\<rfloor> else \<lceil>v\<rceil>)
      in if - (2 ^ 63) \<le> t \<and> t < 2 ^ 63 then word_of_int t else word_of_int (- (2 ^ 63)))"

text \<open>\<^verbatim>\<open>filter\<close>, in parts: \<open>resolveParams\<close> is the choice of the tree height and of
  \<^verbatim>\<open>sigma_r_over_sqrt_2\<close>, \<open>seedRNG\<close> the seeding of the generator from the guide value at
  the centre, \<open>filter_setup\<close> the parameter check and the set-up up to the seeding;
  \<open>filter_amf\<close> (the name \<open>filter\<close> is taken) goes on with the root manifold, the recursion
  and the assembly, and returns the output with the object.\<close>

definition resolveParams :: "amf \<Rightarrow> amf" where
  "resolveParams st =
     st\<lparr>curTreeHeight :=
          (if tree_height st \<le> 0
           then computeManifoldTreeHeight (sigma_s st) (sigma_r st)
           else tree_height st),
        sigma_r_over_sqrt_2 := f32 (f64 (sigma_r st / f64 (sqrt 2)))\<rparr>"

definition seedRNG :: "amf \<Rightarrow> amf result" where
  "seedRNG st =
     (case vec_at (jointCn st) 0 of
        Inl e \<Rightarrow> Inl (e, st)
      | Inr joint0 \<Rightarrow>
          (case mat_at joint0 (height (srcSize st) div 2) (width (srcSize st) div 2) of
             Inl e \<Rightarrow> Inl (e, st)
           | Inr seedCoef \<Rightarrow> Inr (st\<lparr>rnd := seedState seedCoef\<rparr>)))"

definition filter_setup :: "cv_prims \<Rightarrow> amf \<Rightarrow> image \<Rightarrow> joint_arg \<Rightarrow> amf result" where
  "filter_setup P st src joint =
     (if \<not> (1 \<le> sigma_s st \<and> (0 < sigma_r st \<and> sigma_r st \<le> 1)) then Inl (AssertionFailed, st)
      else
        (case initBuffers P (st\<lparr>num_pca_iterations := max 1 (num_pca_iterations st)\<rparr>)
                src joint of
           Inl e \<Rightarrow> Inl e
         | Inr st \<Rightarrow> seedRNG (resolveParams st)))"

definition filter_amf :: "cv_prims \<Rightarrow> amf \<Rightarrow> image \<Rightarrow> joint_arg \<Rightarrow> (image \<times> amf) result" where
  "filter_amf P st src joint =
     (case filter_setup P st src joint of
        Inl e \<Rightarrow> Inl e
      | Inr st \<Rightarrow>
          (let cluster0 = replicate (height (srcSize st)) (replicate (width (srcSize st)) 255);
               eta0 = map (\<lambda>i. h_filter P (jointCn st ! i) [] (f32 (sigma_s st)))
                        [0..<jointCnNum st];
               r = buildManifoldsAndPerformFiltering P (curTreeHeight st) st eta0 cluster0 1
           in Inr (gatherResult (fst r) src)))"

text \<open>An input the library accepts as an image with content: a positive size, at least
  one channel, and one plane of that size per channel. A guide is admissible for a source
  when it is the source itself, empty, or an image of the source's size and of depth
  \<^verbatim>\<open>CV_8U\<close>, \<^verbatim>\<open>CV_16U\<close> or \<^verbatim>\<open>CV_32F\<close>.\<close>

definition valid_image :: "image \<Rightarrow> bool" where
  "valid_image img =
     (0 < width (im_size img) \<and> 0 < height (im_size img) \<and> 0 < im_channels img \<and>
      length (im_data img) = im_channels img \<and>
      (\<forall>m \<in> set (im_data img). is_mat (im_size img) m))"

definition valid_joint :: "image \<Rightarrow> joint_arg \<Rightarrow> bool" where
  "valid_joint src joint =
     (case joint of
        JointSameObject \<Rightarrow> True
      | JointMat j \<Rightarrow>
          im_empty j \<or>
          (valid_image j \<and> im_size j = im_size src \<and>
           (im_depth j = CV_8U \<or> im_depth j = CV_16U \<or> im_depth j = CV_32F)))"

text \<open>The configuration of the object: its six parameters.\<close>

definition params :: "amf \<Rightarrow> bool \<times> real \<times> real \<times> int \<times> int \<times> bool" where
  "params st =
     (adjust_outliers st, sigma_s st, sigma_r st, tree_height st, num_pca_iterations st,
      useRNG st)"

text \<open>For comparing two runs: \<open>keep_min_dist m st\<close> is \<open>st\<close> with the buffer of minimal
  distances replaced by \<open>m\<close> when \<open>adjust_outliers\<close> is off (the filter then neither reads nor
  writes that buffer), and \<open>outcome\<close> is what the caller of \<open>filter\<close> sees: the error, or
  the output image.\<close>

definition keep_min_dist :: "plane \<Rightarrow> amf \<Rightarrow> amf" where
  "keep_min_dist m st =
     st\<lparr>minDistToManifoldSquared :=
          (if adjust_outliers st then minDistToManifoldSquared st else m)\<rparr>"

definition outcome :: "(image \<times> amf) result \<Rightarrow> error + image" where
  "outcome r = map_sum fst fst r"

text \<open>
  The constructor: the six parameters get their defaults. The C++ constructor leaves the
  counters, \<^verbatim>\<open>curTreeHeight\<close> and \<^verbatim>\<open>sigma_r_over_sqrt_2\<close> without a value (0 here; \<open>filter\<close>
  writes each before it reads it), the buffers are empty and the generator holds the
  library's default state. \<^verbatim>\<open>createAMFilter\<close> then sets three parameters.
\<close>

definition AdaptiveManifoldFilterN :: amf where
  "AdaptiveManifoldFilterN =
     \<lparr>adjust_outliers = False, sigma_s = 16, sigma_r = 0.2, tree_height = - 1,
      num_pca_iterations = 1, useRNG = True,
      srcSize = \<lparr>width = 0, height = 0\<rparr>, smallSize = \<lparr>width = 0, height = 0\<rparr>,
      jointCnNum = 0, srcCnNum = 0, jointCn = [], srcCn = [], etaFull = [],
      sum_w_ki_Psi_blur = [], sum_w_ki_Psi_blur_0 = [], w_k = [], Psi_splat_0_small = [],
      Psi_splat_small = [], minDistToManifoldSquared = [], curTreeHeight = 0,
      sigma_r_over_sqrt_2 = 0, rnd = 0xffffffff\<rparr>"

definition createAMFilter :: "real \<Rightarrow> real \<Rightarrow> bool \<Rightarrow> amf" where
  "createAMFilter ss sr adjust =
     AdaptiveManifoldFilterN\<lparr>sigma_s := ss, sigma_r := sr, adjust_outliers := adjust\<rparr>"

text \<open>A stand-in for the library, for running the model: resizing by sampling the
  nearest entry, a domain-transform filter that returns its input, and a generator that
  returns zeros.\<close>

definition nearest_resize :: "plane \<Rightarrow> cvSize \<Rightarrow> real \<Rightarrow> real \<Rightarrow> plane" where
  "nearest_resize src dsize fx fy =
     (let w = (if dsize = \<lparr>width = 0, height = 0\<rparr>
               then nat (cvRound (real (mat_cols src) * fx)) else width dsize);
          h = (if dsize = \<lparr>width = 0, height = 0\<rparr>
               then nat (cvRound (real (length src) * fy)) else height dsize)
      in map (\<lambda>y. map (\<lambda>x. src ! (y * length src div h) ! (x * mat_cols src div w)) [0..<w])
           [0..<h])"

definition simple_prims :: cv_prims where
  "simple_prims =
     \<lparr>cv_resize = nearest_resize,
      dtf_filter = (\<lambda>adth adtv ss sr src. src),
      rng_fill = (\<lambda>state n. (replicate n 0, state)),
      fresh_memory = (\<lambda>y x. 0)\<rparr>"


section \<open>Rounding\<close>

lemma cvRound_of_int [simp]: "cvRound (of_int n) = n"
  by (simp add: cvRound_def)

lemma cvRound_le: "x \<le> of_int n \<Longrightarrow> cvRound x \<le> n"
  unfolding cvRound_def Let_def by (auto; linarith)

lemma cvRound_ge: "of_int n \<le> x \<Longrightarrow> n \<le> cvRound x"
  unfolding cvRound_def Let_def by (auto; linarith)

lemma cvRound_minus: "cvRound (- x) = - cvRound x"
proof (cases "x \<in> \<int>")
  case True
  then obtain n where "x = of_int n" by (auto elim: Ints_cases)
  then have "- x = of_int (- n)" by simp
  then show ?thesis using \<open>x = of_int n\<close> by (simp only: cvRound_of_int)
next
  case False
  then have "x \<noteq> of_int \<lfloor>x\<rfloor>" by (metis Ints_of_int)
  then have f: "\<lfloor>- x\<rfloor> = - \<lfloor>x\<rfloor> - 1"
    by (simp add: floor_minus ceiling_altdef)
  have d: "- x - of_int \<lfloor>- x\<rfloor> = 1 - (x - of_int \<lfloor>x\<rfloor>)" by (simp add: f)
  show ?thesis
    unfolding cvRound_def Let_def d unfolding f by auto
qed

lemma cvRound_half: "\<bar>x\<bar> \<le> 1 / 2 \<Longrightarrow> cvRound x = 0"
proof -
  assume a: "\<bar>x\<bar> \<le> 1 / 2"
  have "\<lfloor>x\<rfloor> = 0 \<or> \<lfloor>x\<rfloor> = - 1" using a by (auto simp: floor_eq_iff)
  then show ?thesis
  proof
    assume "\<lfloor>x\<rfloor> = 0" then show ?thesis using a by (auto simp: cvRound_def Let_def)
  next
    assume "\<lfloor>x\<rfloor> = - 1" then show ?thesis using a by (auto simp: cvRound_def Let_def)
  qed
qed

lemma pow2_pos [simp]: "0 < (2 :: real) powr y"
  by simp

lemma floor_log2_eq:
  "0 < x \<Longrightarrow> 2 powr of_int k \<le> x \<Longrightarrow> x < 2 powr of_int (k + 1) \<Longrightarrow> \<lfloor>log 2 x\<rfloor> = k"
  by (subst floor_log_eq_powr_iff) simp_all

lemma floor_log2_bounds:
  assumes "0 < x"
  shows "2 powr of_int \<lfloor>log 2 x\<rfloor> \<le> x" "x < 2 powr of_int (\<lfloor>log 2 x\<rfloor> + 1)"
  using floor_log_eq_powr_iff [of x 2 "\<lfloor>log 2 x\<rfloor>"] assms by simp_all

lemma floor_log2_mono: "0 < x \<Longrightarrow> x \<le> y \<Longrightarrow> \<lfloor>log 2 x\<rfloor> \<le> \<lfloor>log 2 y\<rfloor>"
  by (intro floor_mono) simp

lemma fl_exp_minus [simp]: "fl_exp p emin (- x) = fl_exp p emin x"
  by (simp add: fl_exp_def)

lemma fl_minus: "fl p emin (- x) = - fl p emin x"
  by (simp add: fl_def cvRound_minus)

lemma fl_zero [simp]: "fl p emin 0 = 0"
  by (simp add: fl_def)

lemma fl_nonneg: "0 \<le> x \<Longrightarrow> 0 \<le> fl p emin x"
  using cvRound_ge [of 0 "x / 2 powr of_int (fl_exp p emin x)"] by (simp add: fl_def)

lemma fl_nonpos: "x \<le> 0 \<Longrightarrow> fl p emin x \<le> 0"
  using fl_nonneg [of "- x" p emin] by (simp add: fl_minus)

text \<open>The canonical exponent is below the exponent of any representation.\<close>

lemma fl_exp_le:
  assumes x: "x = of_int m * 2 powr of_int e" and nz: "x \<noteq> 0"
    and m: "\<bar>m\<bar> < 2 ^ p" and e: "emin - (int p - 1) \<le> e"
  shows "fl_exp p emin x \<le> e"
proof -
  have ax: "\<bar>x\<bar> = of_int \<bar>m\<bar> * 2 powr of_int e" by (simp add: x abs_mult)
  have "real_of_int \<bar>m\<bar> < 2 ^ p" using m by (metis of_int_less_numeral_power_cancel_iff)
  then have "\<bar>x\<bar> < 2 ^ p * 2 powr of_int e" unfolding ax by simp
  also have "\<dots> = 2 powr of_int (int p + e)" by (simp add: powr_add powr_realpow)
  finally have lt: "\<bar>x\<bar> < 2 powr of_int (int p + e)" .
  have pos: "0 < \<bar>x\<bar>" using nz by simp
  have "\<lfloor>log 2 \<bar>x\<bar>\<rfloor> < int p + e"
  proof (rule ccontr)
    assume "\<not> \<lfloor>log 2 \<bar>x\<bar>\<rfloor> < int p + e"
    then have "int p + e \<le> \<lfloor>log 2 \<bar>x\<bar>\<rfloor>" by simp
    then have "(2 :: real) powr of_int (int p + e) \<le> 2 powr of_int \<lfloor>log 2 \<bar>x\<bar>\<rfloor>"
      by simp
    with floor_log2_bounds(1) [OF pos] lt show False by simp
  qed
  with e show ?thesis by (simp add: fl_exp_def)
qed

lemma fl_exact:
  assumes x: "x = of_int m * 2 powr of_int e"
    and m: "\<bar>m\<bar> < 2 ^ p" and e: "emin - (int p - 1) \<le> e"
  shows "fl p emin x = x"
proof (cases "x = 0")
  case True
  then show ?thesis by simp
next
  case False
  let ?E = "fl_exp p emin x"
  have le: "?E \<le> e" using x False m e by (rule fl_exp_le)
  have "x / 2 powr of_int ?E = of_int m * 2 powr (of_int e - of_int ?E)"
    by (simp add: x powr_diff)
  also have "of_int e - of_int ?E = real (nat (e - ?E))" using le by simp
  also have "of_int m * 2 powr real (nat (e - ?E)) = of_int (m * 2 ^ nat (e - ?E))"
    by (simp add: powr_realpow)
  finally have q: "x / 2 powr of_int ?E = of_int (m * 2 ^ nat (e - ?E))" .
  have "fl p emin x = of_int (m * 2 ^ nat (e - ?E)) * 2 powr of_int ?E"
    using False by (simp only: fl_def q cvRound_of_int if_False)
  also have "\<dots> = x" using q by (simp add: field_simps)
  finally show ?thesis .
qed

lemma fl_exp_mono:
  assumes "x \<noteq> 0" "\<bar>x\<bar> \<le> \<bar>y\<bar>"
  shows "fl_exp p emin x \<le> fl_exp p emin y"
proof -
  have "\<lfloor>log 2 \<bar>x\<bar>\<rfloor> \<le> \<lfloor>log 2 \<bar>y\<bar>\<rfloor>"
    using assms by (intro floor_log2_mono) simp_all
  then show ?thesis by (simp add: fl_exp_def)
qed

lemma fl_le_int:
  assumes "x / 2 powr of_int (fl_exp p emin x) \<le> of_int n"
  shows "fl p emin x \<le> of_int n * 2 powr of_int (fl_exp p emin x)"
proof (cases "x = 0")
  case True
  with assms show ?thesis by simp
next
  case False
  have "cvRound (x / 2 powr of_int (fl_exp p emin x)) \<le> n"
    using assms by (rule cvRound_le)
  then have "real_of_int (cvRound (x / 2 powr of_int (fl_exp p emin x))) \<le> of_int n"
    by simp
  then show ?thesis using False by (simp add: fl_def)
qed

lemma repr_div:
  fixes r :: real
  assumes r: "r = of_int m * 2 powr of_int e" and le: "E \<le> e"
  shows "r / 2 powr of_int E = of_int (m * 2 ^ nat (e - E))"
proof -
  have "r / 2 powr of_int E = of_int m * 2 powr (of_int e - of_int E)"
    by (simp add: r powr_diff)
  also have "of_int e - of_int E = real (nat (e - E))" using le by simp
  also have "of_int m * 2 powr real (nat (e - E)) = of_int (m * 2 ^ nat (e - E))"
    by (simp add: powr_realpow)
  finally show ?thesis .
qed

text \<open>Rounding does not cross a representable number.\<close>

lemma fl_le_repr:
  assumes r: "r = of_int m * 2 powr of_int e"
    and m: "\<bar>m\<bar> < 2 ^ p" and e: "emin - (int p - 1) \<le> e" and p: "0 < p"
    and xr: "x \<le> r"
  shows "fl p emin x \<le> r"
proof -
  let ?E = "fl_exp p emin x"
  have direct: "fl p emin x \<le> r" if le: "?E \<le> e"
  proof -
    have q: "r / 2 powr of_int ?E = of_int (m * 2 ^ nat (e - ?E))"
      using r le by (rule repr_div)
    have "x / 2 powr of_int ?E \<le> r / 2 powr of_int ?E"
      using xr by (simp add: divide_right_mono)
    then have "fl p emin x \<le> of_int (m * 2 ^ nat (e - ?E)) * 2 powr of_int ?E"
      unfolding q by (rule fl_le_int)
    also have "\<dots> = r" using q by (simp add: field_simps)
    finally show ?thesis .
  qed
  show ?thesis
  proof (cases "x \<le> 0")
    case True
    show ?thesis
    proof (cases "0 \<le> r")
      case True
      with fl_nonpos [OF \<open>x \<le> 0\<close>, of p emin] show ?thesis by simp
    next
      case False
      then have rneg: "r < 0" and xneg: "x < 0" using xr by simp_all
      show ?thesis
      proof (cases "?E \<le> e")
        case True
        then show ?thesis by (rule direct)
      next
        case False
        have Er: "fl_exp p emin r \<le> e" using r _ m e by (rule fl_exp_le) (use rneg in simp)
        with False have lt: "fl_exp p emin r < ?E" by simp
        let ?L = "\<lfloor>log 2 \<bar>x\<bar>\<rfloor>" and ?Lr = "\<lfloor>log 2 \<bar>r\<bar>\<rfloor>"
        from lt have L: "emin < ?L" "?Lr < ?L" by (simp_all add: fl_exp_def)
        then have E: "?E = ?L - (int p - 1)" by (simp add: fl_exp_def)
        have "\<bar>r\<bar> < 2 powr of_int (?Lr + 1)" using rneg by (intro floor_log2_bounds) simp
        also have "\<dots> \<le> 2 powr of_int ?L" using L(2) by simp
        finally have rb: "- (2 powr of_int ?L) < r" using rneg by simp
        have "2 powr of_int ?L \<le> \<bar>x\<bar>" using xneg by (intro floor_log2_bounds) simp
        then have xb: "x \<le> - (2 powr of_int ?L)" using xneg by simp
        have "- (2 powr of_int ?L) / 2 powr of_int ?E = - ((2 :: real) powr (of_int ?L - of_int ?E))"
          by (simp add: powr_diff)
        also have "of_int ?L - of_int ?E = real (p - 1)" using p by (simp add: E of_nat_diff)
        also have "- ((2 :: real) powr real (p - 1)) = of_int (- (2 ^ (p - 1)))"
          by (simp add: powr_realpow)
        finally have q: "- ((2 :: real) powr of_int ?L) / 2 powr of_int ?E = of_int (- (2 ^ (p - 1)))" .
        have "x / 2 powr of_int ?E \<le> - (2 powr of_int ?L) / 2 powr of_int ?E"
          by (rule divide_right_mono [OF xb]) simp
        then have "fl p emin x \<le> of_int (- (2 ^ (p - 1))) * 2 powr of_int ?E"
          unfolding q by (rule fl_le_int)
        also have "\<dots> = - (2 powr of_int ?L)" using q by (simp add: field_simps)
        finally show ?thesis using rb by simp
      qed
    qed
  next
    case False
    then have xpos: "0 < x" and rpos: "0 < r" using xr by simp_all
    have "?E \<le> fl_exp p emin r" using xpos rpos xr by (intro fl_exp_mono) simp_all
    also have "\<dots> \<le> e" using r _ m e by (rule fl_exp_le) (use rpos in simp)
    finally show ?thesis by (rule direct)
  qed
qed

lemma fl_ge_repr:
  assumes r: "r = of_int m * 2 powr of_int e"
    and m: "\<bar>m\<bar> < 2 ^ p" and e: "emin - (int p - 1) \<le> e" and p: "0 < p"
    and xr: "r \<le> x"
  shows "r \<le> fl p emin x"
proof -
  have "fl p emin (- x) \<le> - r"
  proof (rule fl_le_repr [where m = "- m" and e = e])
    show "- r = of_int (- m) * 2 powr of_int e" by (simp add: r)
    show "\<bar>- m\<bar> < 2 ^ p" using m by simp
    show "emin - (int p - 1) \<le> e" by fact
    show "0 < p" by fact
    show "- x \<le> - r" using xr by simp
  qed
  then show ?thesis by (simp add: fl_minus)
qed

text \<open>Underflow: at most half the smallest positive number rounds to 0.\<close>

lemma fl_underflow:
  assumes "\<bar>x\<bar> \<le> 2 powr of_int (emin - int p)" "0 < p"
  shows "fl p emin x = 0"
proof (cases "x = 0")
  case True
  then show ?thesis by simp
next
  case False
  have "(2 :: real) powr of_int (emin - int p) < 2 powr of_int emin"
    using assms(2) by simp
  with assms(1) have lt: "\<bar>x\<bar> < 2 powr of_int emin" by (rule le_less_trans)
  have "\<lfloor>log 2 \<bar>x\<bar>\<rfloor> < emin"
  proof (rule ccontr)
    assume "\<not> \<lfloor>log 2 \<bar>x\<bar>\<rfloor> < emin"
    then have "(2 :: real) powr of_int emin \<le> 2 powr of_int \<lfloor>log 2 \<bar>x\<bar>\<rfloor>" by simp
    with floor_log2_bounds(1) [of "\<bar>x\<bar>"] False lt show False by simp
  qed
  then have E: "fl_exp p emin x = emin - (int p - 1)" by (simp add: fl_exp_def)
  have "\<bar>x / 2 powr of_int (fl_exp p emin x)\<bar> = \<bar>x\<bar> / 2 powr of_int (emin - (int p - 1))"
    by (simp add: E)
  also have "\<dots> \<le> 2 powr of_int (emin - int p) / 2 powr of_int (emin - (int p - 1))"
    using assms(1) by (simp add: divide_right_mono)
  also have "\<dots> = 2 powr (of_int (emin - int p) - of_int (emin - (int p - 1)))"
    by (simp only: powr_diff)
  also have "\<dots> = 1 / 2" by (simp add: powr_minus field_simps)
  finally have "cvRound (x / 2 powr of_int (fl_exp p emin x)) = 0" by (rule cvRound_half)
  then show ?thesis by (simp add: fl_def)
qed

text \<open>The exponent of a number between two consecutive powers of two.\<close>

lemma fl_exp_eq:
  assumes "2 powr of_int k \<le> \<bar>x\<bar>" "\<bar>x\<bar> < 2 powr of_int (k + 1)"
  shows "fl_exp p emin x = max k emin - (int p - 1)"
proof -
  have "0 < \<bar>x\<bar>" using assms(1) by (rule less_le_trans [rotated]) simp
  then have "\<lfloor>log 2 \<bar>x\<bar>\<rfloor> = k" using assms by (rule floor_log2_eq)
  then show ?thesis by (simp add: fl_exp_def)
qed

lemma fl_eval:
  assumes "2 powr of_int k \<le> \<bar>x\<bar>" "\<bar>x\<bar> < 2 powr of_int (k + 1)"
  shows "fl p emin x =
     of_int (cvRound (x / 2 powr of_int (max k emin - (int p - 1)))) *
       2 powr of_int (max k emin - (int p - 1))"
proof -
  have "x \<noteq> 0" using assms(1) by (auto simp: not_le)
  then show ?thesis by (simp add: fl_def fl_exp_eq [OF assms])
qed

lemma fl_double:
  assumes "2 powr of_int emin \<le> \<bar>x\<bar>"
  shows "fl p emin (2 * x) = 2 * fl p emin x"
proof -
  have pos: "0 < \<bar>x\<bar>" using assms by (rule less_le_trans [rotated]) simp
  let ?L = "\<lfloor>log 2 \<bar>x\<bar>\<rfloor>"
  have L: "emin \<le> ?L"
  proof (rule ccontr)
    assume "\<not> emin \<le> ?L"
    then have "?L + 1 \<le> emin" by simp
    then have "(2 :: real) powr of_int (?L + 1) \<le> 2 powr of_int emin"
      by simp
    with floor_log2_bounds(2) [OF pos] have "\<bar>x\<bar> < 2 powr of_int emin"
      by (rule less_le_trans)
    with assms show False by simp
  qed
  have b: "2 powr of_int (?L + 1) \<le> \<bar>2 * x\<bar>" "\<bar>2 * x\<bar> < 2 powr of_int (?L + 1 + 1)"
    using floor_log2_bounds [OF pos] by (simp_all add: powr_add)
  have E1: "fl_exp p emin x = ?L - (int p - 1)" using L by (simp add: fl_exp_def)
  have E2: "fl_exp p emin (2 * x) = ?L + 1 - (int p - 1)"
    using fl_exp_eq [OF b, of p emin] L by simp
  have e: "(2 :: real) powr of_int (?L + 1 - (int p - 1)) = 2 * 2 powr of_int (?L - (int p - 1))"
  proof -
    have "?L + 1 - (int p - 1) = (?L - (int p - 1)) + 1" by simp
    then have "(2 :: real) powr of_int (?L + 1 - (int p - 1)) =
        2 powr (of_int (?L - (int p - 1)) + 1)"
      by (simp only: of_int_add of_int_1)
    also have "\<dots> = 2 powr of_int (?L - (int p - 1)) * 2 powr 1" by (rule powr_add)
    finally show ?thesis by simp
  qed
  show ?thesis
  proof (cases "x = 0")
    case True
    then show ?thesis by simp
  next
    case False
    define u where "u = (2 :: real) powr of_int (?L - (int p - 1))"
    have "fl p emin (2 * x) = of_int (cvRound (2 * x / (2 * u))) * (2 * u)"
      using False unfolding fl_def E2 e u_def by simp
    also have "\<dots> = 2 * (of_int (cvRound (x / u)) * u)" by simp
    also have "\<dots> = 2 * fl p emin x"
      using False unfolding fl_def E1 u_def by simp
    finally show ?thesis .
  qed
qed


lemma f32_zero [simp]: "f32 0 = 0" and f64_zero [simp]: "f64 0 = 0"
  by (simp_all add: f32_def f64_def)

lemma f32_minus: "f32 (- x) = - f32 x" and f64_minus: "f64 (- x) = - f64 x"
  by (simp_all add: f32_def f64_def fl_minus)

lemma f32_nonneg: "0 \<le> x \<Longrightarrow> 0 \<le> f32 x" and f32_nonpos: "x \<le> 0 \<Longrightarrow> f32 x \<le> 0"
  by (simp_all add: f32_def fl_nonneg fl_nonpos)

lemma f64_nonneg: "0 \<le> x \<Longrightarrow> 0 \<le> f64 x" and f64_nonpos: "x \<le> 0 \<Longrightarrow> f64 x \<le> 0"
  by (simp_all add: f64_def fl_nonneg fl_nonpos)

text \<open>The numbers of binary32 and of binary64 (the finite ones, of any magnitude).\<close>

lemma f32_exact:
  "\<bar>m\<bar> < 2 ^ 24 \<Longrightarrow> - 149 \<le> e \<Longrightarrow> f32 (of_int m * 2 powr of_int e) = of_int m * 2 powr of_int e"
  unfolding f32_def by (rule fl_exact [OF refl]) simp_all

lemma f64_exact:
  "\<bar>m\<bar> < 2 ^ 53 \<Longrightarrow> - 1074 \<le> e \<Longrightarrow> f64 (of_int m * 2 powr of_int e) = of_int m * 2 powr of_int e"
  unfolding f64_def by (rule fl_exact [OF refl]) simp_all

lemma f32_int: "\<bar>m\<bar> < 2 ^ 24 \<Longrightarrow> f32 (of_int m) = of_int m"
  using f32_exact [of m 0] by simp

lemma f64_int: "\<bar>m\<bar> < 2 ^ 53 \<Longrightarrow> f64 (of_int m) = of_int m"
  using f64_exact [of m 0] by simp

lemma f32_frac: "\<bar>m\<bar> < 2 ^ 24 \<Longrightarrow> k \<le> 149 \<Longrightarrow> f32 (of_int m / 2 ^ k) = of_int m / 2 ^ k"
  using f32_exact [of m "- int k"] by (simp add: powr_minus powr_realpow divide_inverse)

lemma f64_frac: "\<bar>m\<bar> < 2 ^ 53 \<Longrightarrow> k \<le> 1074 \<Longrightarrow> f64 (of_int m / 2 ^ k) = of_int m / 2 ^ k"
  using f64_exact [of m "- int k"] by (simp add: powr_minus powr_realpow divide_inverse)

lemma f32_le:
  "\<bar>m\<bar> < 2 ^ 24 \<Longrightarrow> k \<le> 149 \<Longrightarrow> x \<le> of_int m / 2 ^ k \<Longrightarrow> f32 x \<le> of_int m / 2 ^ k"
  unfolding f32_def
  by (rule fl_le_repr [where m = m and e = "- int k"])
     (simp_all add: powr_minus powr_realpow divide_inverse)

lemma f32_ge:
  "\<bar>m\<bar> < 2 ^ 24 \<Longrightarrow> k \<le> 149 \<Longrightarrow> of_int m / 2 ^ k \<le> x \<Longrightarrow> of_int m / 2 ^ k \<le> f32 x"
  unfolding f32_def
  by (rule fl_ge_repr [where m = m and e = "- int k"])
     (simp_all add: powr_minus powr_realpow divide_inverse)

lemma f64_le:
  "\<bar>m\<bar> < 2 ^ 53 \<Longrightarrow> k \<le> 1074 \<Longrightarrow> x \<le> of_int m / 2 ^ k \<Longrightarrow> f64 x \<le> of_int m / 2 ^ k"
  unfolding f64_def
  by (rule fl_le_repr [where m = m and e = "- int k"])
     (simp_all add: powr_minus powr_realpow divide_inverse)

lemma f64_ge:
  "\<bar>m\<bar> < 2 ^ 53 \<Longrightarrow> k \<le> 1074 \<Longrightarrow> of_int m / 2 ^ k \<le> x \<Longrightarrow> of_int m / 2 ^ k \<le> f64 x"
  unfolding f64_def
  by (rule fl_ge_repr [where m = m and e = "- int k"])
     (simp_all add: powr_minus powr_realpow divide_inverse)

lemma f32_le_pow:
  "\<bar>m\<bar> < 2 ^ 24 \<Longrightarrow> x \<le> of_int m * 2 ^ k \<Longrightarrow> f32 x \<le> of_int m * 2 ^ k"
  unfolding f32_def
  by (rule fl_le_repr [where m = m and e = "int k"]) (simp_all add: powr_realpow)

lemma f32_ge_pow:
  "\<bar>m\<bar> < 2 ^ 24 \<Longrightarrow> of_int m * 2 ^ k \<le> x \<Longrightarrow> of_int m * 2 ^ k \<le> f32 x"
  unfolding f32_def
  by (rule fl_ge_repr [where m = m and e = "int k"]) (simp_all add: powr_realpow)

lemma f32_abs_le_pow:
  assumes "\<bar>x\<bar> \<le> of_nat n * 2 ^ k" "n < 2 ^ 24"
  shows "\<bar>f32 x\<bar> \<le> of_nat n * 2 ^ k"
proof -
  have m: "\<bar>int n\<bar> < 2 ^ 24" "\<bar>- int n\<bar> < 2 ^ 24" using assms(2) by simp_all
  have "f32 x \<le> of_int (int n) * 2 ^ k"
    using m(1) by (rule f32_le_pow) (use assms(1) in simp)
  moreover have "of_int (- int n) * 2 ^ k \<le> f32 x"
    using m(2) by (rule f32_ge_pow) (use assms(1) in simp)
  ultimately show ?thesis by simp
qed

lemma f32_le_one: "x \<le> 1 \<Longrightarrow> f32 x \<le> 1"
  using f32_le [of 1 0 x] by simp

lemma f32_underflow:
  assumes "\<bar>x\<bar> \<le> 2 powr - 150"
  shows "f32 x = 0"
proof -
  have "real_of_int (- 126 - int 24) = - 150" by simp
  with assms have "\<bar>x\<bar> \<le> 2 powr of_int (- 126 - int 24)" by (simp only:)
  then show ?thesis unfolding f32_def by (rule fl_underflow) simp
qed

lemma f64_double:
  assumes "2 powr - 1022 \<le> \<bar>x\<bar>"
  shows "f64 (2 * x) = 2 * f64 x"
proof -
  have "real_of_int (- 1022) = - 1022" by simp
  with assms have "2 powr of_int (- 1022) \<le> \<bar>x\<bar>" by (simp only:)
  then show ?thesis unfolding f64_def by (rule fl_double)
qed

lemma f32_underflow_pow:
  assumes "\<bar>x\<bar> \<le> 1 / 2 ^ 150"
  shows "f32 x = 0"
proof -
  have "(2 :: real) powr - 150 = inverse (2 powr 150)" by (rule powr_minus)
  also have "(2 :: real) powr 150 = 2 ^ 150" using powr_realpow [of "2 :: real" 150] by simp
  finally have "(2 :: real) powr - 150 = 1 / 2 ^ 150" by (simp add: inverse_eq_divide)
  with assms have "\<bar>x\<bar> \<le> 2 powr - 150" by simp
  then show ?thesis by (rule f32_underflow)
qed

lemma f32_values:
  "f32 1 = 1" "f32 (- 1) = - 1" "f32 (1 / 2) = 1 / 2" "f32 (- (1 / 2)) = - (1 / 2)"
  "f32 2 = 2" "f32 (- 512) = - 512" "f32 (1 / 1024) = 1 / 1024" "f32 (1 / 4) = 1 / 4"
  using f32_int [of 1] f32_int [of "- 1"] f32_frac [of 1 1] f32_frac [of "- 1" 1]
    f32_int [of 2] f32_int [of "- 512"] f32_frac [of 1 10] f32_frac [of 1 2]
  by simp_all


section \<open>Shapes\<close>

declare spec_backward.simps [simp del]

lemma is_mat_row: "is_mat sz m \<Longrightarrow> y < height sz \<Longrightarrow> length (m ! y) = width sz"
  by (simp add: is_mat_def)

lemma is_mat_length: "is_mat sz m \<Longrightarrow> length m = height sz"
  by (simp add: is_mat_def)

lemma is_matI: "length m = height sz \<Longrightarrow> (\<And>y. y < height sz \<Longrightarrow> length (m ! y) = width sz) \<Longrightarrow> is_mat sz m"
  by (auto simp: is_mat_def in_set_conv_nth)

lemma is_mat_mat_create: "is_mat sz (mat_create P sz old)"
  by (simp add: mat_create_def is_mat_def)

lemma mat_cols_is_mat: "is_mat sz m \<Longrightarrow> 0 < height sz \<Longrightarrow> mat_cols m = width sz"
  by (cases m) (auto simp: is_mat_def mat_cols_def)

lemma length_h_row_forward: "length (h_row_forward a s d n) = length d"
proof -
  have "length (foldl (\<lambda>d x. d[x := s ! x + a * (d ! (x - 1) - s ! x)]) d xs) = length d" for xs
    by (induction xs arbitrary: d) auto
  then show ?thesis by (simp add: h_row_forward_def)
qed

lemma h_row_forward_Suc:
  "1 \<le> n \<Longrightarrow> h_row_forward a s d (Suc n) =
     (h_row_forward a s d n)[n := s ! n + a * (h_row_forward a s d n ! (n - 1) - s ! n)]"
  by (simp add: h_row_forward_def)

lemma h_row_forward_nth:
  "n \<le> length d \<Longrightarrow> d ! 0 = s ! 0 \<Longrightarrow>
   h_row_forward a s d n ! i = (if i < n then spec_forward a s i else d ! i)"
proof (induction n arbitrary: i)
  case 0
  then show ?case by (simp add: h_row_forward_def)
next
  case (Suc n)
  show ?case
  proof (cases "n = 0")
    case True
    with Suc.prems show ?thesis by (cases i) (simp_all add: h_row_forward_def)
  next
    case False
    then obtain k where k: "n = Suc k" by (cases n) auto
    have len: "n < length (h_row_forward a s d n)"
      using Suc.prems by (simp add: length_h_row_forward)
    have ih: "\<And>j. h_row_forward a s d n ! j = (if j < n then spec_forward a s j else d ! j)"
      using Suc.IH Suc.prems by simp
    show ?thesis
      using False len ih [of i] ih [of k] k
      by (auto simp add: h_row_forward_Suc nth_list_update)
  qed
qed

lemma length_h_row_backward: "length (h_row_backward a d n) = length d"
  by (induction n arbitrary: d) auto

lemma h_row_backward_nth:
  "n < c \<Longrightarrow> length d = c \<Longrightarrow> (\<And>j. j < n \<Longrightarrow> d ! j = spec_forward a s j) \<Longrightarrow>
   (\<And>j. n \<le> j \<Longrightarrow> j < c \<Longrightarrow> d ! j = spec_backward a s c j) \<Longrightarrow> i < c \<Longrightarrow>
   h_row_backward a d n ! i = spec_backward a s c i"
proof (induction n arbitrary: d)
  case 0
  then show ?case by simp
next
  case (Suc n)
  let ?d = "d[n := d ! n + a * (d ! Suc n - d ! n)]"
  have "h_row_backward a ?d n ! i = spec_backward a s c i"
  proof (rule Suc.IH)
    show "n < c" using Suc.prems by simp
    show "length ?d = c" using Suc.prems by simp
    show "?d ! j = spec_forward a s j" if "j < n" for j
      using that Suc.prems by simp
    show "?d ! j = spec_backward a s c j" if "n \<le> j" "j < c" for j
    proof (cases "j = n")
      case True
      have "spec_backward a s c n = spec_forward a s n + a * (spec_backward a s c (Suc n) - spec_forward a s n)"
        using Suc.prems(1) by (subst spec_backward.simps) simp
      with True Suc.prems show ?thesis by simp
    next
      case False
      with that Suc.prems show ?thesis by simp
    qed
    show "i < c" by fact
  qed
  then show ?case by simp
qed

lemma h_row_nth:
  assumes "length d = c" "i < c"
  shows "h_row a s d c ! i = spec_backward a s c i"
proof -
  let ?d0 = "d[0 := s ! 0]"
  let ?f = "h_row_forward a s ?d0 c"
  have f: "?f ! j = spec_forward a s j" if "j < c" for j
    using assms that by (subst h_row_forward_nth) auto
  have "h_row_backward a ?f (c - 1) ! i = spec_backward a s c i"
  proof (rule h_row_backward_nth)
    show "c - 1 < c" using assms by simp
    show "length ?f = c" using assms by (simp add: length_h_row_forward)
    show "?f ! j = spec_forward a s j" if "j < c - 1" for j using that f by simp
    show "?f ! j = spec_backward a s c j" if "c - 1 \<le> j" "j < c" for j
    proof -
      have "j = c - 1" using that by simp
      then have "spec_backward a s c j = spec_forward a s j"
        using that by (subst spec_backward.simps) simp
      with f that show ?thesis by simp
    qed
    show "i < c" by fact
  qed
  then show ?thesis by (simp add: h_row_def)
qed

lemma length_h_row: "length (h_row a s d c) = length d"
  by (simp add: h_row_def length_h_row_backward length_h_row_forward)


lemma length_foldl_update: "length (foldl (\<lambda>d y. d[y := g d y]) d xs) = length d"
  by (induction xs arbitrary: d) auto

lemma foldl_rowwise_nth:
  "n \<le> length d \<Longrightarrow>
   foldl (\<lambda>d y. d[y := g y (d ! y)]) d [0..<n] ! y = (if y < n then g y (d ! y) else d ! y)"
proof (induction n arbitrary: y)
  case 0
  then show ?case by simp
next
  case (Suc n)
  then have "n < length (foldl (\<lambda>d y. d[y := g y (d ! y)]) d [0..<n])"
    by (simp add: length_foldl_update)
  with Suc show ?case by (auto simp: nth_list_update)
qed

lemma length_h_rows: "length (h_rows a src dst) = length dst"
  by (simp add: h_rows_def length_foldl_update)

lemma h_rows_row:
  "length src \<le> length dst \<Longrightarrow> y < length src \<Longrightarrow>
   h_rows a src dst ! y = h_row a (src ! y) (dst ! y) (mat_cols src)"
  unfolding h_rows_def
  by (subst foldl_rowwise_nth [where g = "\<lambda>y r. h_row a (src ! y) r (mat_cols src)"]) auto

lemma rf_vert_row_pass_nth:
  "x < c \<Longrightarrow> rf_vert_row_pass cur prev a c ! x = cur ! x + a * (prev ! x - cur ! x)"
  by (simp add: rf_vert_row_pass_def nth_append)

lemma length_rf_vert_row_pass:
  "length cur = c \<Longrightarrow> length (rf_vert_row_pass cur prev a c) = c"
  by (simp add: rf_vert_row_pass_def)

lemma length_h_cols_forward: "length (h_cols_forward a d c n) = length d"
  by (simp add: h_cols_forward_def length_foldl_update)

lemma h_cols_forward_Suc:
  "1 \<le> n \<Longrightarrow> h_cols_forward a d c (Suc n) =
     (h_cols_forward a d c n)[n := rf_vert_row_pass (h_cols_forward a d c n ! n)
        (h_cols_forward a d c n ! (n - 1)) a c]"
  by (simp add: h_cols_forward_def)

lemma h_cols_forward_nth:
  "n \<le> length d \<Longrightarrow> (\<And>y. y < length d \<Longrightarrow> length (d ! y) = c) \<Longrightarrow> y < length d \<Longrightarrow>
   length (h_cols_forward a d c n ! y) = c \<and>
   (\<forall>x<c. h_cols_forward a d c n ! y ! x =
      (if y < n then spec_forward a (map (\<lambda>r. r ! x) d) y else d ! y ! x))"
proof (induction n arbitrary: y)
  case 0
  then show ?case by (simp add: h_cols_forward_def)
next
  case (Suc n)
  show ?case
  proof (cases "n = 0")
    case True
    with Suc.prems show ?thesis by (cases y) (simp_all add: h_cols_forward_def)
  next
    case False
    then obtain k where k: "n = Suc k" by (cases n) auto
    let ?G = "h_cols_forward a d c n"
    have len: "n < length ?G"
      using Suc.prems by (simp add: length_h_cols_forward)
    have ih: "length (?G ! j) = c \<and>
       (\<forall>x<c. ?G ! j ! x = (if j < n then spec_forward a (map (\<lambda>r. r ! x) d) j else d ! j ! x))"
      if "j < length d" for j
      using Suc.IH [of j] Suc.prems that by simp
    have kd: "k < length d" "n < length d" using Suc.prems k by simp_all
    show ?thesis
    proof (cases "y = n")
      case True
      have "length (rf_vert_row_pass (?G ! n) (?G ! k) a c) = c"
        using ih [OF kd(2)] by (simp add: length_rf_vert_row_pass)
      moreover have "rf_vert_row_pass (?G ! n) (?G ! k) a c ! x =
          spec_forward a (map (\<lambda>r. r ! x) d) n" if "x < c" for x
        using that ih [OF kd(1)] ih [OF kd(2)] k kd
        by (simp add: rf_vert_row_pass_nth)
      ultimately show ?thesis
        using True False len k by (simp add: h_cols_forward_Suc)
    next
      case False
      then show ?thesis
        using \<open>n \<noteq> 0\<close> len ih [of y] Suc.prems(3)
        by (auto simp add: h_cols_forward_Suc nth_list_update)
    qed
  qed
qed

lemma length_h_cols_backward: "length (h_cols_backward a d c n) = length d"
  by (induction n arbitrary: d) auto

lemma h_cols_backward_nth:
  "n < h \<Longrightarrow> length d = h \<Longrightarrow> (\<And>y. y < h \<Longrightarrow> length (d ! y) = c) \<Longrightarrow>
   (\<And>j x. j < n \<Longrightarrow> x < c \<Longrightarrow> d ! j ! x = spec_forward a (s x) j) \<Longrightarrow>
   (\<And>j x. n \<le> j \<Longrightarrow> j < h \<Longrightarrow> x < c \<Longrightarrow> d ! j ! x = spec_backward a (s x) h j) \<Longrightarrow>
   y < h \<Longrightarrow>
   length (h_cols_backward a d c n ! y) = c \<and>
   (\<forall>x<c. h_cols_backward a d c n ! y ! x = spec_backward a (s x) h y)"
proof (induction n arbitrary: d)
  case 0
  then show ?case by simp
next
  case (Suc n)
  let ?d = "d[n := rf_vert_row_pass (d ! n) (d ! Suc n) a c]"
  have "length (h_cols_backward a ?d c n ! y) = c \<and>
        (\<forall>x<c. h_cols_backward a ?d c n ! y ! x = spec_backward a (s x) h y)"
  proof (rule Suc.IH)
    show "n < h" using Suc.prems by simp
    show "length ?d = h" using Suc.prems by simp
    show "length (?d ! j) = c" if "j < h" for j
      using that Suc.prems by (simp add: nth_list_update length_rf_vert_row_pass)
    show "?d ! j ! x = spec_forward a (s x) j" if "j < n" "x < c" for j x
      using that Suc.prems by simp
    show "?d ! j ! x = spec_backward a (s x) h j" if "n \<le> j" "j < h" "x < c" for j x
    proof (cases "j = n")
      case True
      have "spec_backward a (s x) h n =
          spec_forward a (s x) n + a * (spec_backward a (s x) h (Suc n) - spec_forward a (s x) n)"
        using Suc.prems(1) by (subst spec_backward.simps) simp
      with True that Suc.prems show ?thesis by (simp add: rf_vert_row_pass_nth)
    next
      case False
      with that Suc.prems show ?thesis by simp
    qed
    show "y < h" by fact
  qed
  then show ?case by simp
qed


lemma h_filter_empty: "h_filter_rows P [] dst sigma = []" "h_filter P [] dst sigma = []"
  by (auto simp add: h_filter_def h_filter_rows_def h_rows_def mat_create_def mat_size_def
      mat_cols_def is_mat_def h_cols_forward_def)

lemma mat_size_is_mat: "is_mat sz m \<Longrightarrow> 0 < height sz \<Longrightarrow> mat_size m = sz"
  by (simp add: mat_size_def mat_cols_is_mat is_mat_length)

lemma h_filter_rows_nth:
  assumes "is_mat sz src" "y < height sz"
  shows "length (h_filter_rows P src dst sigma ! y) = width sz"
    and "x < width sz \<Longrightarrow>
      h_filter_rows P src dst sigma ! y ! x =
        spec_backward (exp (- sqrt 2 / sigma)) (src ! y) (width sz) x"
proof -
  let ?d = "mat_create P (mat_size src) dst"
  have sz: "mat_size src = sz" "mat_cols src = width sz" "length src = height sz"
    using assms by (simp_all add: mat_size_is_mat mat_cols_is_mat is_mat_length)
  have d: "is_mat sz ?d" using is_mat_mat_create [of "mat_size src" P dst] sz by simp
  have row: "h_filter_rows P src dst sigma ! y =
      h_row (exp (- sqrt 2 / sigma)) (src ! y) (?d ! y) (width sz)"
    using assms d sz unfolding h_filter_rows_def
    by (subst h_rows_row) (simp_all add: is_mat_length)
  have len: "length (?d ! y) = width sz" using d assms(2) by (rule is_mat_row)
  show "length (h_filter_rows P src dst sigma ! y) = width sz"
    by (simp add: row length_h_row len)
  show "h_filter_rows P src dst sigma ! y ! x =
        spec_backward (exp (- sqrt 2 / sigma)) (src ! y) (width sz) x" if "x < width sz"
    using that len by (simp add: row h_row_nth)
qed

lemma length_h_filter_rows: "is_mat sz src \<Longrightarrow> length (h_filter_rows P src dst sigma) = height sz"
proof -
  assume a: "is_mat sz src"
  have "is_mat (mat_size src) (mat_create P (mat_size src) dst)" by (rule is_mat_mat_create)
  then have "length (mat_create P (mat_size src) dst) = length src"
    by (simp add: is_mat_def mat_size_def)
  then show ?thesis using a by (simp add: h_filter_rows_def length_h_rows is_mat_length)
qed

lemma h_cols_nth:
  assumes "length d = h" "\<And>y. y < h \<Longrightarrow> length (d ! y) = c" "y < h"
  shows "length (h_cols_backward a (h_cols_forward a d c h) c (h - 1) ! y) = c \<and>
     (\<forall>x<c. h_cols_backward a (h_cols_forward a d c h) c (h - 1) ! y ! x =
        spec_backward a (map (\<lambda>r. r ! x) d) h y)"
proof (rule h_cols_backward_nth)
  let ?f = "h_cols_forward a d c h"
  have f: "length (?f ! j) = c \<and> (\<forall>x<c. ?f ! j ! x = spec_forward a (map (\<lambda>r. r ! x) d) j)"
    if "j < h" for j
    using h_cols_forward_nth [of h d c j a] assms that by simp
  show "h - 1 < h" using assms by simp
  show "length ?f = h" using assms by (simp add: length_h_cols_forward)
  show "length (?f ! j) = c" if "j < h" for j using f that by simp
  show "?f ! j ! x = spec_forward a (map (\<lambda>r. r ! x) d) j" if "j < h - 1" "x < c" for j x
    using f [of j] that by simp
  show "?f ! j ! x = spec_backward a (map (\<lambda>r. r ! x) d) h j"
    if "h - 1 \<le> j" "j < h" "x < c" for j x
  proof -
    have "\<not> Suc j < h" using that by linarith
    then have "spec_backward a (map (\<lambda>r. r ! x) d) h j = spec_forward a (map (\<lambda>r. r ! x) d) j"
      by (subst spec_backward.simps) simp
    with f [of j] that show ?thesis by simp
  qed
  show "y < h" by fact
qed

lemma h_filter_nth:
  assumes "is_mat sz src" "y < height sz"
  shows "length (h_filter P src dst sigma ! y) = width sz"
    and "x < width sz \<Longrightarrow>
      h_filter P src dst sigma ! y ! x =
        spec_backward (exp (- sqrt 2 / sigma))
          (map (\<lambda>r. r ! x) (h_filter_rows P src dst sigma)) (height sz) y"
proof -
  have sz: "mat_cols src = width sz" "length src = height sz"
    using assms by (simp_all add: mat_cols_is_mat is_mat_length)
  have *: "length (h_filter P src dst sigma ! y) = width sz \<and>
     (\<forall>x<width sz. h_filter P src dst sigma ! y ! x =
        spec_backward (exp (- sqrt 2 / sigma))
          (map (\<lambda>r. r ! x) (h_filter_rows P src dst sigma)) (height sz) y)"
    unfolding h_filter_def Let_def sz
    by (rule h_cols_nth)
       (use assms in \<open>simp_all add: length_h_filter_rows h_filter_rows_nth(1)\<close>)
  show "length (h_filter P src dst sigma ! y) = width sz" using * by simp
  show "h_filter P src dst sigma ! y ! x =
        spec_backward (exp (- sqrt 2 / sigma))
          (map (\<lambda>r. r ! x) (h_filter_rows P src dst sigma)) (height sz) y" if "x < width sz"
    using * that by simp
qed

lemma length_h_filter: "is_mat sz src \<Longrightarrow> length (h_filter P src dst sigma) = height sz"
  by (simp add: h_filter_def Let_def length_h_cols_backward length_h_cols_forward
      length_h_filter_rows)

lemma is_mat_h_filter: "is_mat sz src \<Longrightarrow> is_mat sz (h_filter P src dst sigma)"
  by (rule is_matI) (simp_all add: length_h_filter h_filter_nth(1))

lemma spec_forward_const: "(\<And>j. j \<le> i \<Longrightarrow> x ! j = c) \<Longrightarrow> spec_forward a x i = c"
  by (induction i) simp_all

lemma spec_backward_const: "(\<And>j. j < n \<Longrightarrow> x ! j = c) \<Longrightarrow> i < n \<Longrightarrow> spec_backward a x n i = c"
proof (induction a x n i rule: spec_backward.induct)
  case (1 a x n i)
  have f: "spec_forward a x i = c" using 1 by (intro spec_forward_const) simp
  show ?case
  proof (cases "Suc i < n")
    case True
    with 1 f show ?thesis by (subst spec_backward.simps) simp
  next
    case False
    with f show ?thesis by (subst spec_backward.simps) simp
  qed
qed


text \<open>
  Claim C4. For a plane \<open>src\<close> of size \<open>sz\<close> and the coefficient \<open>a = exp(- sqrt 2 / sigma)\<close>,
  the row loop of \<open>h_filter\<close> leaves in every row \<open>y\<close> the line that the recurrences of the
  spec compute from \<open>src ! y\<close> (\<open>y[0] = x[0]\<close>, \<open>y[i] = x[i] + a (y[i-1] - x[i])\<close> from left to
  right, then \<open>y[i] = y[i] + a (y[i+1] - y[i])\<close> from right to left), the two column loops
  apply the same forward and backward relation down and up every column of that
  intermediate plane, and the output has the size of the input. It holds for every
  \<open>sigma\<close> and whatever the destination held before.
\<close>

theorem h_filter_recurrences:
  "is_mat sz src \<Longrightarrow>
   is_mat sz (h_filter P src dst sigma) \<and>
   (\<forall>y<height sz. \<forall>x<width sz.
      h_filter_rows P src dst sigma ! y ! x =
        spec_backward (exp (- sqrt 2 / sigma)) (src ! y) (width sz) x) \<and>
   (\<forall>y<height sz. \<forall>x<width sz.
      h_filter P src dst sigma ! y ! x =
        spec_backward (exp (- sqrt 2 / sigma))
          (map (\<lambda>r. r ! x) (h_filter_rows P src dst sigma)) (height sz) y)"
  by (simp add: is_mat_h_filter h_filter_rows_nth(2) h_filter_nth(2))

theorem h_filter_recurrences_witness:
  "is_mat \<lparr>width = 2, height = 2\<rparr> [[1, 2], [3, 4 :: real]] \<and>
   is_mat \<lparr>width = 2, height = 2\<rparr> (h_filter simple_prims [[1, 2], [3, 4]] [] 1) \<and>
   h_filter_rows simple_prims [[1, 2], [3, 4]] [] 1 ! 0 ! 1 =
     spec_backward (exp (- sqrt 2 / 1)) ([[1, 2], [3, 4]] ! 0) 2 1 \<and>
   h_filter simple_prims [[1, 2], [3, 4]] [] 1 ! 1 ! 0 =
     spec_backward (exp (- sqrt 2 / 1))
       (map (\<lambda>r. r ! 0) (h_filter_rows simple_prims [[1, 2], [3, 4]] [] 1)) 2 1"
proof -
  have h: "is_mat \<lparr>width = 2, height = 2\<rparr> [[1, 2], [3, 4 :: real]]"
    by (simp add: is_mat_def)
  show ?thesis
    using h h_filter_recurrences [OF h, of simple_prims "[]" 1] by simp
qed

text \<open>
  Claim C10. On a plane whose every entry is \<open>c\<close>, \<open>h_filter\<close> returns a plane of the same
  size whose every entry is \<open>c\<close>, for every \<open>sigma\<close> (in exact arithmetic).
\<close>

theorem h_filter_constant:
  assumes "is_mat sz src" "\<forall>y<height sz. \<forall>x<width sz. src ! y ! x = c"
  shows "is_mat sz (h_filter P src dst sigma) \<and>
     (\<forall>y<height sz. \<forall>x<width sz. h_filter P src dst sigma ! y ! x = c)"
proof -
  have rows: "h_filter_rows P src dst sigma ! y ! x = c" if "y < height sz" "x < width sz" for y x
    using assms that by (simp add: h_filter_rows_nth(2) spec_backward_const)
  have "h_filter P src dst sigma ! y ! x = c" if "y < height sz" "x < width sz" for y x
  proof -
    have "spec_backward (exp (- sqrt 2 / sigma))
          (map (\<lambda>r. r ! x) (h_filter_rows P src dst sigma)) (height sz) y = c"
      using that rows assms(1) by (intro spec_backward_const) (simp_all add: length_h_filter_rows)
    then show ?thesis using assms(1) that by (simp add: h_filter_nth(2))
  qed
  then show ?thesis using assms(1) by (simp add: is_mat_h_filter)
qed

theorem h_filter_constant_witness:
  "is_mat \<lparr>width = 2, height = 2\<rparr> [[5, 5], [5, 5 :: real]] \<and>
   h_filter simple_prims [[5, 5], [5, 5]] [] 3 ! 0 ! 0 = 5 \<and>
   h_filter simple_prims [[5, 5], [5, 5]] [] 3 ! 0 ! 1 = 5 \<and>
   h_filter simple_prims [[5, 5], [5, 5]] [] 3 ! 1 ! 0 = 5 \<and>
   h_filter simple_prims [[5, 5], [5, 5]] [] 3 ! 1 ! 1 = 5"
proof -
  have h: "is_mat \<lparr>width = 2, height = 2\<rparr> [[5, 5], [5, 5 :: real]]"
    by (simp add: is_mat_def)
  have c: "\<forall>y<height \<lparr>width = 2, height = 2\<rparr>. \<forall>x<width \<lparr>width = 2, height = 2\<rparr>.
      [[5, 5], [5, 5 :: real]] ! y ! x = 5"
    by (simp add: nth_Cons split: nat.split)
  show ?thesis
    using h h_filter_constant [OF h c, of simple_prims "[]" 3] by simp
qed

section \<open>The weights of a manifold\<close>

lemma sqd_nonneg: "0 \<le> sqd a b"
  unfolding sqd_def by (rule f32_nonneg) simp

lemma sqd_le:
  assumes "\<bar>a\<bar> \<le> 2 ^ 20" "\<bar>b\<bar> \<le> 2 ^ 20"
  shows "sqd a b \<le> 2 ^ 42"
proof -
  have "\<bar>a - b\<bar> \<le> of_nat 1 * 2 ^ 21" using assms by simp
  then have "\<bar>f32 (a - b)\<bar> \<le> of_nat 1 * 2 ^ 21" by (rule f32_abs_le_pow) simp
  then have t: "\<bar>f32 (a - b)\<bar> \<le> 2 ^ 21" by simp
  have "f32 (a - b) * f32 (a - b) = \<bar>f32 (a - b)\<bar> * \<bar>f32 (a - b)\<bar>" by simp
  also have "\<dots> \<le> 2 ^ 21 * 2 ^ 21" using t by (intro mult_mono) simp_all
  finally have "f32 (a - b) * f32 (a - b) \<le> of_int 1 * 2 ^ 42" by simp
  then have "f32 (f32 (a - b) * f32 (a - b)) \<le> of_int 1 * 2 ^ 42"
    by (rule f32_le_pow [rotated]) simp
  then show ?thesis by (simp add: sqd_def)
qed

lemma dist2_nonneg: "0 \<le> dist2 st etak i j"
proof -
  have "0 \<le> foldl (\<lambda>d c. if c = 0 then sqd (etak ! c ! i ! j) (jointCn st ! c ! i ! j)
                   else f32 (d + sqd (etak ! c ! i ! j) (jointCn st ! c ! i ! j))) a cs"
    if "0 \<le> a" for a cs
    using that
  proof (induction cs arbitrary: a)
    case Nil
    then show ?case by simp
  next
    case (Cons c cs)
    show ?case
      unfolding foldl_Cons
      by (rule Cons.IH) (simp add: sqd_nonneg f32_nonneg Cons.prems)
  qed
  then show ?thesis by (simp add: dist2_def)
qed

text \<open>With values of magnitude up to \<open>2\<^sup>2\<^sup>0\<close> the accumulated distance stays far below the
  largest number of binary32.\<close>

lemma dist2_le:
  assumes "jointCnNum st \<le> 2 ^ 20"
    and "\<forall>c<jointCnNum st. \<bar>etak ! c ! i ! j\<bar> \<le> 2 ^ 20 \<and> \<bar>jointCn st ! c ! i ! j\<bar> \<le> 2 ^ 20"
  shows "dist2 st etak i j \<le> 2 ^ 62"
proof -
  let ?g = "\<lambda>d c. if c = 0 then sqd (etak ! c ! i ! j) (jointCn st ! c ! i ! j)
                   else f32 (d + sqd (etak ! c ! i ! j) (jointCn st ! c ! i ! j))"
  have "foldl ?g 0 [0..<n] \<le> of_nat n * 2 ^ 42" if "n \<le> jointCnNum st" for n
    using that
  proof (induction n)
    case 0
    show ?case by simp
  next
    case (Suc n)
    have n: "n < jointCnNum st" using Suc.prems by simp
    then have q: "sqd (etak ! n ! i ! j) (jointCn st ! n ! i ! j) \<le> 2 ^ 42"
      using assms(2) by (intro sqd_le) simp_all
    have ih: "foldl ?g 0 [0..<n] \<le> of_nat n * 2 ^ 42" using Suc by simp
    show ?case
    proof (cases "n = 0")
      case True
      with q show ?thesis by simp
    next
      case False
      have "Suc n < 2 ^ 24"
      proof -
        have "Suc n \<le> 2 ^ 20" using Suc.prems assms(1) by simp
        also have "(2 :: nat) ^ 20 < 2 ^ 24" by simp
        finally show ?thesis .
      qed
      then have m: "\<bar>int (Suc n)\<bar> < 2 ^ 24" by simp
      have "foldl ?g 0 [0..<n] + sqd (etak ! n ! i ! j) (jointCn st ! n ! i ! j) \<le>
          of_int (int (Suc n)) * 2 ^ 42"
        using ih q by (simp add: algebra_simps)
      then have "f32 (foldl ?g 0 [0..<n] + sqd (etak ! n ! i ! j) (jointCn st ! n ! i ! j)) \<le>
          of_int (int (Suc n)) * 2 ^ 42"
        by (rule f32_le_pow [OF m])
      with False show ?thesis by simp
    qed
  qed
  from this [of "jointCnNum st"] have "dist2 st etak i j \<le> of_nat (jointCnNum st) * 2 ^ 42"
    by (simp add: dist2_def)
  also have "\<dots> \<le> 2 ^ 20 * 2 ^ 42"
  proof -
    have "real (jointCnNum st) \<le> real (2 ^ 20)" using assms(1) by (simp only: of_nat_le_iff)
    then show ?thesis by simp
  qed
  finally show ?thesis by simp
qed

lemma dist_row_eq:
  assumes "0 < jointCnNum st" "length dstRow = width (srcSize st)"
  shows "dist_row st etak dstRow i = map (\<lambda>j. dist2 st etak i j) [0..<width (srcSize st)]"
proof -
  let ?w = "width (srcSize st)"
  let ?f = "\<lambda>d cn.
         if cn = 0 then sqr_dif d (etak ! cn ! i) (jointCn st ! cn ! i) ?w
         else add_sqr_dif d (etak ! cn ! i) (jointCn st ! cn ! i) ?w"
  let ?g = "\<lambda>j d c. if c = 0 then sqd (etak ! c ! i ! j) (jointCn st ! c ! i ! j)
                   else f32 (d + sqd (etak ! c ! i ! j) (jointCn st ! c ! i ! j))"
  have "foldl ?f dstRow [0..<Suc n] = map (\<lambda>j. foldl (?g j) 0 [0..<Suc n]) [0..<?w]" for n
  proof (induction n)
    case 0
    show ?case using assms(2) by (simp add: sqr_dif_def)
  next
    case (Suc n)
    have "foldl ?f dstRow [0..<Suc (Suc n)] = ?f (foldl ?f dstRow [0..<Suc n]) (Suc n)"
      by simp
    also have "\<dots> = map (\<lambda>j. foldl (?g j) 0 [0..<Suc (Suc n)]) [0..<?w]"
      unfolding Suc.IH
      by (rule nth_equalityI) (simp_all add: add_sqr_dif_def nth_append)
    finally show ?case .
  qed
  from this [of "jointCnNum st - 1"] assms(1) show ?thesis
    by (simp add: dist_row_def dist2_def)
qed

lemma foldl_pair_rowwise:
  fixes g :: "nat \<Rightarrow> 'a \<Rightarrow> 'a" and h :: "nat \<Rightarrow> 'a \<Rightarrow> 'b \<Rightarrow> 'b"
  assumes step: "\<And>dm i. step dm i =
      ((fst dm)[i := g i (fst dm ! i)], (snd dm)[i := h i (fst dm ! i) (snd dm ! i)])"
    and n: "n \<le> length d"
  shows "length (fst (foldl step (d, m) [0..<n])) = length d \<and>
     length (snd (foldl step (d, m) [0..<n])) = length m \<and>
     fst (foldl step (d, m) [0..<n]) ! i = (if i < n then g i (d ! i) else d ! i) \<and>
     (n \<le> length m \<longrightarrow>
        snd (foldl step (d, m) [0..<n]) ! i = (if i < n then h i (d ! i) (m ! i) else m ! i))"
  using n
proof (induction n arbitrary: i)
  case 0
  then show ?case by simp
next
  case (Suc n)
  let ?r = "foldl step (d, m) [0..<n]"
  have ih: "length (fst ?r) = length d" "length (snd ?r) = length m"
    "\<And>i. fst ?r ! i = (if i < n then g i (d ! i) else d ! i)"
    "\<And>i. n \<le> length m \<Longrightarrow> snd ?r ! i = (if i < n then h i (d ! i) (m ! i) else m ! i)"
    using Suc.IH Suc.prems by simp_all
  have r: "foldl step (d, m) [0..<Suc n] =
      ((fst ?r)[n := g n (fst ?r ! n)], (snd ?r)[n := h n (fst ?r ! n) (snd ?r ! n)])"
    by (simp add: step)
  show ?case
    unfolding r using ih Suc.prems by (auto simp: nth_list_update)
qed

lemma compute_w_k_row_step:
  "compute_w_k_row st etak k lvl dm i =
     ((fst dm)[i := (let D = dist_row st etak (fst dm ! i) i in mul D D k (width (srcSize st)))],
      (snd dm)[i := (let D = dist_row st etak (fst dm ! i) i in
           if adjust_outliers st then
             (if lvl \<noteq> 1 then min_row (snd dm ! i) (snd dm ! i) D (width (srcSize st))
              else take (width (srcSize st)) D @ drop (width (srcSize st)) (snd dm ! i))
           else snd dm ! i)])"
  by (simp add: compute_w_k_row_def Let_def)

lemma compute_w_k_nth:
  assumes "0 < jointCnNum st" "i < height (srcSize st)" "j < width (srcSize st)"
  shows "fst (compute_w_k P st etak dst sigma lvl) ! i ! j =
           f32 (exp (f32 (dist2 st etak i j * f32 (- 0.5 / f32 (sigma * sigma)))))"
    and "adjust_outliers st \<Longrightarrow> is_mat (srcSize st) (minDistToManifoldSquared st) \<Longrightarrow>
         minDistToManifoldSquared (snd (compute_w_k P st etak dst sigma lvl)) ! i ! j =
           (if lvl = 1 then dist2 st etak i j
            else min (minDistToManifoldSquared st ! i ! j) (dist2 st etak i j))"
    and "\<not> adjust_outliers st \<Longrightarrow> snd (compute_w_k P st etak dst sigma lvl) = st"
proof -
  let ?w = "width (srcSize st)" and ?h = "height (srcSize st)"
  let ?d = "mat_create P (srcSize st) dst"
  let ?k = "f32 (- 0.5 / f32 (sigma * sigma))"
  let ?r = "foldl (compute_w_k_row st etak ?k lvl) (?d, minDistToManifoldSquared st) [0..<?h]"
  have d: "is_mat (srcSize st) ?d" by (rule is_mat_mat_create)
  then have dl: "length ?d = ?h" and dr: "length (?d ! i) = ?w"
    using assms(2) by (simp_all add: is_mat_length is_mat_row)
  have D: "dist_row st etak (?d ! i) i = map (\<lambda>j. dist2 st etak i j) [0..<?w]"
    using assms(1) dr by (rule dist_row_eq)
  note fp = foldl_pair_rowwise [where step = "compute_w_k_row st etak ?k lvl" and n = ?h
      and d = ?d and m = "minDistToManifoldSquared st" and i = i, OF compute_w_k_row_step]
  have f: "fst ?r ! i = mul (dist_row st etak (?d ! i) i) (dist_row st etak (?d ! i) i) ?k ?w"
    using fp dl assms(2) by (simp add: Let_def)
  have l: "length (fst ?r) = ?h" using fp dl by simp
  have fi: "fst ?r ! i = map (\<lambda>j. f32 (dist2 st etak i j * ?k)) [0..<?w]"
    unfolding f D by (simp add: mul_def)
  have "fst (compute_w_k P st etak dst sigma lvl) = cv_exp (fst ?r)"
    by (simp add: compute_w_k_def Let_def)
  also have "cv_exp (fst ?r) ! i ! j = f32 (exp (fst ?r ! i ! j))"
  proof -
    have lr: "length (fst ?r ! i) = ?w" unfolding fi by simp
    show ?thesis unfolding cv_exp_def by (simp only: nth_map l lr assms(2,3))
  qed
  also have "fst ?r ! i ! j = f32 (dist2 st etak i j * ?k)"
    unfolding fi using assms(3) by simp
  finally show "fst (compute_w_k P st etak dst sigma lvl) ! i ! j =
      f32 (exp (f32 (dist2 st etak i j * ?k)))" .
  show "minDistToManifoldSquared (snd (compute_w_k P st etak dst sigma lvl)) ! i ! j =
           (if lvl = 1 then dist2 st etak i j
            else min (minDistToManifoldSquared st ! i ! j) (dist2 st etak i j))"
    if "adjust_outliers st" "is_mat (srcSize st) (minDistToManifoldSquared st)"
  proof -
    have ml: "length (minDistToManifoldSquared st) = ?h"
      "length (minDistToManifoldSquared st ! i) = ?w"
      using that(2) assms(2) by (simp_all add: is_mat_length is_mat_row)
    have "snd ?r ! i =
       (if lvl \<noteq> 1 then min_row (minDistToManifoldSquared st ! i) (minDistToManifoldSquared st ! i)
             (dist_row st etak (?d ! i) i) ?w
        else take ?w (dist_row st etak (?d ! i) i) @ drop ?w (minDistToManifoldSquared st ! i))"
      using fp dl ml assms(2) that(1) by (simp add: Let_def)
    then show ?thesis
      using assms(3) ml by (simp add: compute_w_k_def Let_def D min_row_def nth_append)
  qed
  show "snd (compute_w_k P st etak dst sigma lvl) = st" if "\<not> adjust_outliers st"
  proof -
    have "snd (foldl (compute_w_k_row st etak ?k lvl) dm xs) = snd dm" for dm xs
      using that by (induction xs arbitrary: dm) (simp_all add: compute_w_k_row_def Let_def)
    then show ?thesis by (simp add: compute_w_k_def Let_def)
  qed
qed

lemma exp_underflow: "exp (- 512 :: real) \<le> 2 powr - 150"
proof -
  have "(- 512 :: real) \<le> - 150 * ln 2" using ln_2_less_1 by simp
  then have "exp (- 512 :: real) \<le> exp (- 150 * ln 2)" by (simp only: exp_le_cancel_iff)
  also have "\<dots> = 2 powr - 150" by (simp add: powr_def)
  finally show ?thesis .
qed

text \<open>
  Claim C1, as amended. With at least one guide channel, \<open>compute_w_k\<close> writes at every
  pixel \<open>p\<close> of the image \<open>w_k(p) = exp(d2(p) \<cdot> c)\<close>, where \<open>d2(p)\<close> is the sum over the guide
  channels of \<open>(eta_k_c(p) - joint_c(p))\<^sup>2\<close> and \<open>c = - 0.5 / sigma\<^sup>2\<close>, each of them computed in
  binary32 with one rounding per operation, the product and the exponential rounded as
  well. The value lies in \<open>[0, 1]\<close>; it is 0 where the exponential underflows (the
  counterexample to the range \<open>(0, 1]\<close>: \<open>sigma = 1/32\<close> and \<open>d2 = 1\<close>, where \<open>exp(- 512)\<close> is
  below half the least positive number of binary32). When \<open>adjust_outliers\<close> is set (and
  the buffer of minimal distances has the size of the image, as \<open>initBuffers\<close> leaves it),
  the call at tree level 1 stores \<open>d2(p)\<close> as the minimal distance of \<open>p\<close> and a call at any
  other level stores the minimum of the previous value and \<open>d2(p)\<close>. The statement is
  for one plane of the size of the image per guide channel, guide and manifold values of
  magnitude up to \<open>2\<^sup>2\<^sup>0\<close>, up to \<open>2\<^sup>2\<^sup>0\<close> channels and \<open>2\<^sup>-\<^sup>3\<^sup>0 \<le> sigma \<le> 2\<^sup>3\<^sup>0\<close>: there the
  rounded \<open>sigma\<^sup>2\<close> is not 0 and \<open>d2(p) \<le> 2\<^sup>6\<^sup>2\<close>, so that no operation of the code divides by
  0 or overflows. (\<open>filter\<close> passes \<open>sigma = sigma_r / sqrt 2\<close>, rounded.)
\<close>

theorem compute_w_k_weights:
  assumes "0 < jointCnNum st" "i < height (srcSize st)" "j < width (srcSize st)"
    and "length etak = jointCnNum st" "length (jointCn st) = jointCnNum st"
    and "\<forall>c<jointCnNum st. is_mat (srcSize st) (etak ! c) \<and> is_mat (srcSize st) (jointCn st ! c)"
    and "jointCnNum st \<le> 2 ^ 20"
    and "\<forall>c<jointCnNum st. \<bar>etak ! c ! i ! j\<bar> \<le> 2 ^ 20 \<and> \<bar>jointCn st ! c ! i ! j\<bar> \<le> 2 ^ 20"
    and "1 / 2 ^ 30 \<le> sigma" "sigma \<le> 2 ^ 30"
  shows "fst (compute_w_k P st etak dst sigma lvl) ! i ! j =
           f32 (exp (f32 (dist2 st etak i j * f32 (- 0.5 / f32 (sigma * sigma))))) \<and>
         0 \<le> fst (compute_w_k P st etak dst sigma lvl) ! i ! j \<and>
         fst (compute_w_k P st etak dst sigma lvl) ! i ! j \<le> 1 \<and>
         1 / 2 ^ 60 \<le> f32 (sigma * sigma) \<and>
         0 \<le> dist2 st etak i j \<and> dist2 st etak i j \<le> 2 ^ 62 \<and>
         (adjust_outliers st \<and> is_mat (srcSize st) (minDistToManifoldSquared st) \<longrightarrow>
            minDistToManifoldSquared (snd (compute_w_k P st etak dst sigma lvl)) ! i ! j =
              (if lvl = 1 then dist2 st etak i j
               else min (minDistToManifoldSquared st ! i ! j) (dist2 st etak i j)))"
proof -
  let ?k = "f32 (- 0.5 / f32 (sigma * sigma))"
  have "0 \<le> f32 (sigma * sigma)" by (rule f32_nonneg) simp
  then have "- 0.5 / f32 (sigma * sigma) \<le> 0" by (simp add: divide_nonpos_nonneg)
  then have k: "?k \<le> 0" by (rule f32_nonpos)
  have "dist2 st etak i j * ?k \<le> 0"
    using dist2_nonneg [of st etak i j] k by (simp add: mult_nonneg_nonpos)
  then have "f32 (dist2 st etak i j * ?k) \<le> 0" by (rule f32_nonpos)
  then have "exp (f32 (dist2 st etak i j * ?k)) \<le> 1" by simp
  then have le: "f32 (exp (f32 (dist2 st etak i j * ?k))) \<le> 1" by (rule f32_le_one)
  have ge: "0 \<le> f32 (exp (f32 (dist2 st etak i j * ?k)))" by (rule f32_nonneg) simp
  have "(1 / 2 ^ 30) * (1 / 2 ^ 30) \<le> sigma * sigma"
    using assms(9) by (intro mult_mono) simp_all
  then have "of_int 1 / 2 ^ 60 \<le> sigma * sigma" by simp
  then have "of_int 1 / 2 ^ 60 \<le> f32 (sigma * sigma)" by (rule f32_ge [rotated 2]) simp_all
  then have sg: "1 / 2 ^ 60 \<le> f32 (sigma * sigma)" by simp
  note d = dist2_nonneg [of st etak i j] dist2_le [OF assms(7,8)]
  show ?thesis
    using compute_w_k_nth(1) [OF assms(1,2,3), of P etak dst sigma lvl]
      compute_w_k_nth(2) [OF assms(1,2,3), of P etak dst sigma lvl] le ge
    by (simp only: sg d) simp
qed

theorem compute_w_k_weights_witness:
  "fst (compute_w_k simple_prims
     (AdaptiveManifoldFilterN\<lparr>adjust_outliers := True, srcSize := \<lparr>width = 1, height = 1\<rparr>,
          jointCnNum := 1, jointCn := [[[0]]], minDistToManifoldSquared := [[7]]\<rparr>)
     [[[1]]] [] 1 1) ! 0 ! 0 = f32 (exp (- (1 / 2))) \<and>
   minDistToManifoldSquared (snd (compute_w_k simple_prims
     (AdaptiveManifoldFilterN\<lparr>adjust_outliers := True, srcSize := \<lparr>width = 1, height = 1\<rparr>,
          jointCnNum := 1, jointCn := [[[0]]], minDistToManifoldSquared := [[7]]\<rparr>)
     [[[1]]] [] 1 1)) ! 0 ! 0 = 1"
  using compute_w_k_weights [of
     "AdaptiveManifoldFilterN\<lparr>adjust_outliers := True, srcSize := \<lparr>width = 1, height = 1\<rparr>,
          jointCnNum := 1, jointCn := [[[0]]], minDistToManifoldSquared := [[7]]\<rparr>"
     0 0 "[[[1]]]" 1 simple_prims "[]" 1]
  by (simp add: dist2_def sqd_def is_mat_def f32_values)

theorem compute_w_k_zero_counterexample:
  "fst (compute_w_k simple_prims
     (AdaptiveManifoldFilterN\<lparr>srcSize := \<lparr>width = 1, height = 1\<rparr>,
          jointCnNum := 1, jointCn := [[[0]]]\<rparr>)
     [[[1]]] [] (1 / 32) 1) ! 0 ! 0 = 0"
proof -
  let ?st = "AdaptiveManifoldFilterN\<lparr>srcSize := \<lparr>width = 1, height = 1\<rparr>,
          jointCnNum := 1, jointCn := [[[0]]]\<rparr>"
  have "fst (compute_w_k simple_prims ?st [[[1]]] [] (1 / 32) 1) ! 0 ! 0 =
      f32 (exp (f32 (dist2 ?st [[[1]]] 0 0 * f32 (- 0.5 / f32 (1 / 32 * (1 / 32))))))"
    by (rule compute_w_k_nth(1)) simp_all
  also have "\<dots> = f32 (exp (- 512))"
    by (simp add: dist2_def sqd_def f32_values)
  also have "\<dots> = 0"
    by (rule f32_underflow) (use exp_underflow in simp)
  finally show ?thesis .
qed


section \<open>Assembly\<close>

lemma map2_nth: "x < length a \<Longrightarrow> x < length b \<Longrightarrow> map2 f a b ! x = f (a ! x) (b ! x)"
  by simp

lemma mat_binop_nth:
  "y < length a \<Longrightarrow> y < length b \<Longrightarrow> x < length (a ! y) \<Longrightarrow> x < length (b ! y) \<Longrightarrow>
   mat_binop f a b ! y ! x = f (a ! y ! x) (b ! y ! x)"
  by (simp add: mat_binop_def)

lemma is_mat_mat_binop: "is_mat sz a \<Longrightarrow> is_mat sz b \<Longrightarrow> is_mat sz (mat_binop f a b)"
  by (rule is_matI) (simp_all add: mat_binop_def is_mat_length is_mat_row)

lemma mat_binop_is_mat_nth:
  "is_mat sz a \<Longrightarrow> is_mat sz b \<Longrightarrow> y < height sz \<Longrightarrow> x < width sz \<Longrightarrow>
   mat_binop f a b ! y ! x = f (a ! y ! x) (b ! y ! x)"
  by (simp add: mat_binop_nth is_mat_length is_mat_row)

lemma is_mat_map_map: "is_mat sz a \<Longrightarrow> is_mat sz (map (map f) a)"
  by (simp add: is_mat_def)

lemma map_map_nth:
  "is_mat sz a \<Longrightarrow> y < height sz \<Longrightarrow> x < width sz \<Longrightarrow> map (map f) a ! y ! x = f (a ! y ! x)"
  by (simp add: is_mat_length is_mat_row)

lemma cv_div_eq: "cv_div x y = x / y"
  by (simp add: cv_div_def)

lemma gatherResult_shape:
  "im_depth (fst (gatherResult st src)) = im_depth src"
  "im_channels (fst (gatherResult st src)) = srcCnNum st"
  by (simp_all add: gatherResult_def Let_def cv_merge_def)

lemma gatherResult_plain:
  assumes "c < srcCnNum st" "y < height (srcSize st)" "x < width (srcSize st)"
    and "is_mat (srcSize st) (sum_w_ki_Psi_blur st ! c)"
    and "is_mat (srcSize st) (sum_w_ki_Psi_blur_0 st)"
    and "\<not> adjust_outliers st"
  shows "im_data (fst (gatherResult st src)) ! c ! y ! x =
     (if im_depth src = CV_64F
      then f64 (sum_w_ki_Psi_blur st ! c ! y ! x / sum_w_ki_Psi_blur_0 st ! y ! x)
      else saturate_cast (im_depth src)
             (f32 (sum_w_ki_Psi_blur st ! c ! y ! x / sum_w_ki_Psi_blur_0 st ! y ! x)))"
proof -
  have "im_data (fst (gatherResult st src)) ! c =
      cv_divide_to (im_depth src) (sum_w_ki_Psi_blur st ! c) (sum_w_ki_Psi_blur_0 st)"
    using assms(1,6) by (simp add: gatherResult_def Let_def cv_merge_def)
  also have "\<dots> ! y ! x =
     (if im_depth src = CV_64F
      then f64 (cv_div (sum_w_ki_Psi_blur st ! c ! y ! x) (sum_w_ki_Psi_blur_0 st ! y ! x))
      else saturate_cast (im_depth src)
             (f32 (cv_div (sum_w_ki_Psi_blur st ! c ! y ! x) (sum_w_ki_Psi_blur_0 st ! y ! x))))"
    unfolding cv_divide_to_def using assms(4,5,2,3) by (rule mat_binop_is_mat_nth)
  finally show ?thesis by (simp only: cv_div_eq)
qed

lemma gatherResult_adjust:
  assumes "c < srcCnNum st" "y < height (srcSize st)" "x < width (srcSize st)"
    and "is_mat (srcSize st) (sum_w_ki_Psi_blur st ! c)"
    and "is_mat (srcSize st) (sum_w_ki_Psi_blur_0 st)"
    and "adjust_outliers st" "is_mat (srcSize st) (srcCn st ! c)"
    and "is_mat (srcSize st) (minDistToManifoldSquared st)"
  shows "im_data (fst (gatherResult st src)) ! c ! y ! x =
     saturate_cast (im_depth src)
       (f32 (f32 (f32 (exp (f32 (minDistToManifoldSquared st ! y ! x *
                               f32 (f64 (- 0.5 / f64 (sigma_r st * sigma_r st)))))) *
                  f32 (f32 (sum_w_ki_Psi_blur st ! c ! y ! x / sum_w_ki_Psi_blur_0 st ! y ! x)
                         - srcCn st ! c ! y ! x))
             + srcCn st ! c ! y ! x))"
proof -
  let ?sz = "srcSize st"
  let ?g = "cv_divide (sum_w_ki_Psi_blur st ! c) (sum_w_ki_Psi_blur_0 st)"
  let ?k = "f64 (- 0.5 / f64 (sigma_r st * sigma_r st))"
  let ?alpha = "cv_exp (cv_scale (minDistToManifoldSquared st) ?k)"
  let ?f = "srcCn st ! c"
  have g: "is_mat ?sz ?g" using assms(4,5) by (simp add: cv_divide_def is_mat_mat_binop)
  have "?g ! y ! x =
      f32 (cv_div (sum_w_ki_Psi_blur st ! c ! y ! x) (sum_w_ki_Psi_blur_0 st ! y ! x))"
    unfolding cv_divide_def using assms(4,5,2,3) by (rule mat_binop_is_mat_nth)
  then have gv: "?g ! y ! x =
      f32 (sum_w_ki_Psi_blur st ! c ! y ! x / sum_w_ki_Psi_blur_0 st ! y ! x)"
    by (simp only: cv_div_eq)
  have sc: "is_mat ?sz (cv_scale (minDistToManifoldSquared st) ?k)"
    using assms(8) unfolding cv_scale_def by (rule is_mat_map_map)
  have a: "is_mat ?sz ?alpha"
    using sc unfolding cv_exp_def by (rule is_mat_map_map)
  have "?alpha ! y ! x = f32 (exp (cv_scale (minDistToManifoldSquared st) ?k ! y ! x))"
    unfolding cv_exp_def using sc assms(2,3) by (rule map_map_nth)
  also have "cv_scale (minDistToManifoldSquared st) ?k ! y ! x =
      f32 (minDistToManifoldSquared st ! y ! x * f32 ?k)"
    unfolding cv_scale_def using assms(8,2,3) by (rule map_map_nth)
  finally have av: "?alpha ! y ! x =
      f32 (exp (f32 (minDistToManifoldSquared st ! y ! x * f32 ?k)))" .
  have s1: "is_mat ?sz (cv_subtract ?g ?f)"
    using g assms(7) by (simp add: cv_subtract_def is_mat_mat_binop)
  have s2: "is_mat ?sz (cv_multiply ?alpha (cv_subtract ?g ?f))"
    using a s1 by (simp add: cv_multiply_def is_mat_mat_binop)
  have s3: "is_mat ?sz (cv_add (cv_multiply ?alpha (cv_subtract ?g ?f)) ?f)"
    using s2 assms(7) by (simp add: cv_add_def is_mat_mat_binop)
  have v1: "cv_subtract ?g ?f ! y ! x = f32 (?g ! y ! x - ?f ! y ! x)"
    unfolding cv_subtract_def using g assms(7,2,3) by (rule mat_binop_is_mat_nth)
  have v2: "cv_multiply ?alpha (cv_subtract ?g ?f) ! y ! x =
      f32 (?alpha ! y ! x * cv_subtract ?g ?f ! y ! x)"
    unfolding cv_multiply_def using a s1 [unfolded cv_multiply_def] assms(2,3)
    by (rule mat_binop_is_mat_nth)
  have v3: "cv_add (cv_multiply ?alpha (cv_subtract ?g ?f)) ?f ! y ! x =
      f32 (cv_multiply ?alpha (cv_subtract ?g ?f) ! y ! x + ?f ! y ! x)"
    unfolding cv_add_def using s2 [unfolded cv_add_def] assms(7,2,3)
    by (rule mat_binop_is_mat_nth)
  have v: "cv_add (cv_multiply ?alpha (cv_subtract ?g ?f)) ?f ! y ! x =
      f32 (f32 (?alpha ! y ! x * f32 (?g ! y ! x - ?f ! y ! x)) + ?f ! y ! x)"
    by (simp only: v1 v2 v3)
  have "im_data (fst (gatherResult st src)) ! c =
      convertTo (cv_add (cv_multiply ?alpha (cv_subtract ?g ?f)) ?f) (im_depth src)"
    using assms(6,1) by (simp add: gatherResult_def Let_def cv_merge_def)
  also have "\<dots> ! y ! x =
      saturate_cast (im_depth src) (cv_add (cv_multiply ?alpha (cv_subtract ?g ?f)) ?f ! y ! x)"
    unfolding convertTo_def using s3 assms(2,3) by (rule map_map_nth)
  finally show ?thesis by (simp only: v av gv)
qed

lemma quotient_range:
  assumes "\<bar>q\<bar> \<le> 2 ^ 29"
  shows "\<bar>f32 q\<bar> \<le> 2 ^ 29"
  using f32_abs_le_pow [of q 1 29] assms by simp

lemma alpha_range:
  assumes "0 \<le> m" "1 / 2 ^ 30 \<le> s"
  shows "1 / 2 ^ 60 \<le> f64 (s * s)"
    and "0 \<le> f32 (exp (f32 (m * f32 (f64 (- 0.5 / f64 (s * s))))))"
    and "f32 (exp (f32 (m * f32 (f64 (- 0.5 / f64 (s * s)))))) \<le> 1"
proof -
  let ?k = "f32 (f64 (- 0.5 / f64 (s * s)))"
  have "(1 / 2 ^ 30) * (1 / 2 ^ 30) \<le> s * s"
    using assms(2) by (intro mult_mono) simp_all
  then have "of_int 1 / 2 ^ 60 \<le> s * s" by simp
  then have "of_int 1 / 2 ^ 60 \<le> f64 (s * s)" by (rule f64_ge [rotated 2]) simp_all
  then show "1 / 2 ^ 60 \<le> f64 (s * s)" by simp
  have "0 \<le> f64 (s * s)" by (rule f64_nonneg) simp
  then have "- 0.5 / f64 (s * s) \<le> 0" by (simp add: divide_nonpos_nonneg)
  then have "f64 (- 0.5 / f64 (s * s)) \<le> 0" by (rule f64_nonpos)
  then have k: "?k \<le> 0" by (rule f32_nonpos)
  have "m * ?k \<le> 0" using assms(1) k by (simp add: mult_nonneg_nonpos)
  then have "f32 (m * ?k) \<le> 0" by (rule f32_nonpos)
  then have "exp (f32 (m * ?k)) \<le> 1" by simp
  then show "f32 (exp (f32 (m * ?k))) \<le> 1" by (rule f32_le_one)
  show "0 \<le> f32 (exp (f32 (m * ?k)))" by (rule f32_nonneg) simp
qed

lemma blend_range:
  assumes "\<bar>q\<bar> \<le> 2 ^ 29" "\<bar>s\<bar> \<le> 2 ^ 29" "0 \<le> a" "a \<le> 1"
  shows "\<bar>f32 (f32 (a * f32 (f32 q - s)) + s)\<bar> \<le> 3 * 2 ^ 29"
proof -
  have q: "\<bar>f32 q\<bar> \<le> 2 ^ 29" using assms(1) by (rule quotient_range)
  have "\<bar>f32 q - s\<bar> \<le> 2 ^ 30" using q assms(2) by simp
  then have d: "\<bar>f32 (f32 q - s)\<bar> \<le> 2 ^ 30"
    using f32_abs_le_pow [of "f32 q - s" 1 30] by simp
  have "\<bar>a * f32 (f32 q - s)\<bar> = a * \<bar>f32 (f32 q - s)\<bar>"
    using assms(3) by (simp add: abs_mult)
  also have "\<dots> \<le> 1 * 2 ^ 30"
    using assms(3,4) d by (intro mult_mono) simp_all
  finally have "\<bar>a * f32 (f32 q - s)\<bar> \<le> 2 ^ 30" by simp
  then have "\<bar>f32 (a * f32 (f32 q - s))\<bar> \<le> 2 ^ 30"
    using f32_abs_le_pow [of "a * f32 (f32 q - s)" 1 30] by simp
  then have "\<bar>f32 (a * f32 (f32 q - s)) + s\<bar> \<le> 3 * 2 ^ 29"
    using assms(2) by simp
  then show ?thesis
    using f32_abs_le_pow [of "f32 (a * f32 (f32 q - s)) + s" 3 29] by simp
qed

text \<open>
  Claim C2, as amended. For every channel \<open>c\<close> of the source and every pixel \<open>p\<close> of the
  image (the accumulators having the size of the image), \<open>gatherResult\<close> without
  \<open>adjust_outliers\<close> returns the quotient \<open>sum_wk_psi[c](p) / sum_wk(p)\<close> rounded to binary32
  and then cast to the depth of the input (for the depth \<^verbatim>\<open>CV_64F\<close>: the quotient rounded
  to binary64). With \<open>adjust_outliers\<close> it returns \<open>alpha(p) (g(p) - src_c(p)) + src_c(p)\<close> cast
  to that depth, where \<open>g = sum_wk_psi[c] / sum_wk\<close> and
  \<open>alpha(p) = exp(min_dist2(p) \<cdot> (- 0.5 / sigma_r\<^sup>2))\<close> and every operation rounds to binary32
  before the next one (the constant \<open>- 0.5 / sigma_r\<^sup>2\<close> is computed in binary64 and then
  converted). The cast therefore sees a rounded value, and at an integer depth the output
  can differ by one unit from the cast of the exact value (the counterexample: the exact
  value \<open>3.5 - 2\<^sup>-\<^sup>2\<^sup>2\<close> casts to 3, the code returns 4). The output has the depth of the input
  and one channel per source channel. The statement is for quotients and source values
  of magnitude up to \<open>2\<^sup>2\<^sup>9\<close>, minimal distances that are not negative and
  \<open>sigma_r \<ge> 2\<^sup>-\<^sup>3\<^sup>0\<close>: there the rounded \<open>sigma_r\<^sup>2\<close> is not 0, \<open>alpha\<close> lies in \<open>[0, 1]\<close> and the
  value that is cast has a magnitude below \<open>2\<^sup>3\<^sup>1\<close>, so that no operation of the code
  overflows or divides by 0 and \<^verbatim>\<open>cvRound\<close> is defined. (Where the weight sum is 0 the
  library's division stores 0, which is also what \<open>/\<close> denotes here.)
\<close>

theorem gatherResult_values:
  assumes "c < srcCnNum st" "y < height (srcSize st)" "x < width (srcSize st)"
    and "is_mat (srcSize st) (sum_w_ki_Psi_blur st ! c)"
    and "is_mat (srcSize st) (sum_w_ki_Psi_blur_0 st)"
    and "\<bar>sum_w_ki_Psi_blur st ! c ! y ! x / sum_w_ki_Psi_blur_0 st ! y ! x\<bar> \<le> 2 ^ 29"
    and "adjust_outliers st \<longrightarrow>
           \<bar>srcCn st ! c ! y ! x\<bar> \<le> 2 ^ 29 \<and> 0 \<le> minDistToManifoldSquared st ! y ! x \<and>
           1 / 2 ^ 30 \<le> sigma_r st"
  shows "im_depth (fst (gatherResult st src)) = im_depth src \<and>
     im_channels (fst (gatherResult st src)) = srcCnNum st \<and>
     (\<not> adjust_outliers st \<longrightarrow>
        im_data (fst (gatherResult st src)) ! c ! y ! x =
          (if im_depth src = CV_64F
           then f64 (sum_w_ki_Psi_blur st ! c ! y ! x / sum_w_ki_Psi_blur_0 st ! y ! x)
           else saturate_cast (im_depth src)
                  (f32 (sum_w_ki_Psi_blur st ! c ! y ! x / sum_w_ki_Psi_blur_0 st ! y ! x))) \<and>
        \<bar>f32 (sum_w_ki_Psi_blur st ! c ! y ! x / sum_w_ki_Psi_blur_0 st ! y ! x)\<bar> \<le> 2 ^ 29) \<and>
     (adjust_outliers st \<and> is_mat (srcSize st) (srcCn st ! c) \<and>
      is_mat (srcSize st) (minDistToManifoldSquared st) \<longrightarrow>
        im_data (fst (gatherResult st src)) ! c ! y ! x =
          saturate_cast (im_depth src)
            (f32 (f32 (f32 (exp (f32 (minDistToManifoldSquared st ! y ! x *
                                    f32 (f64 (- 0.5 / f64 (sigma_r st * sigma_r st)))))) *
                       f32 (f32 (sum_w_ki_Psi_blur st ! c ! y ! x /
                                 sum_w_ki_Psi_blur_0 st ! y ! x)
                              - srcCn st ! c ! y ! x))
                  + srcCn st ! c ! y ! x)) \<and>
        \<bar>f32 (f32 (f32 (exp (f32 (minDistToManifoldSquared st ! y ! x *
                                    f32 (f64 (- 0.5 / f64 (sigma_r st * sigma_r st)))))) *
                       f32 (f32 (sum_w_ki_Psi_blur st ! c ! y ! x /
                                 sum_w_ki_Psi_blur_0 st ! y ! x)
                              - srcCn st ! c ! y ! x))
                  + srcCn st ! c ! y ! x)\<bar> \<le> 3 * 2 ^ 29 \<and>
        1 / 2 ^ 60 \<le> f64 (sigma_r st * sigma_r st) \<and>
        0 \<le> f32 (exp (f32 (minDistToManifoldSquared st ! y ! x *
                               f32 (f64 (- 0.5 / f64 (sigma_r st * sigma_r st)))))) \<and>
        f32 (exp (f32 (minDistToManifoldSquared st ! y ! x *
                         f32 (f64 (- 0.5 / f64 (sigma_r st * sigma_r st)))))) \<le> 1)"
proof -
  have r: "adjust_outliers st \<Longrightarrow>
      \<bar>f32 (f32 (f32 (exp (f32 (minDistToManifoldSquared st ! y ! x *
                                    f32 (f64 (- 0.5 / f64 (sigma_r st * sigma_r st)))))) *
                       f32 (f32 (sum_w_ki_Psi_blur st ! c ! y ! x /
                                 sum_w_ki_Psi_blur_0 st ! y ! x)
                              - srcCn st ! c ! y ! x))
                  + srcCn st ! c ! y ! x)\<bar> \<le> 3 * 2 ^ 29"
    using assms(6,7) by (intro blend_range alpha_range) simp_all
  { assume ad: "adjust_outliers st"
    from assms(7) ad have m: "0 \<le> minDistToManifoldSquared st ! y ! x"
      and sg: "1 / 2 ^ 30 \<le> sigma_r st" by blast+
    note alpha_range [OF m sg] }
  note a = this
  show ?thesis
    using gatherResult_shape [of st src] gatherResult_plain [OF assms(1-5), of src]
      gatherResult_adjust [OF assms(1-5), of src] quotient_range [OF assms(6)] r a
    by blast
qed

theorem gatherResult_values_witness:
  "im_data (fst (gatherResult
      (AdaptiveManifoldFilterN\<lparr>srcSize := \<lparr>width = 1, height = 1\<rparr>, srcCnNum := 1,
         sum_w_ki_Psi_blur := [[[7]]], sum_w_ki_Psi_blur_0 := [[2]]\<rparr>)
      \<lparr>im_size = \<lparr>width = 1, height = 1\<rparr>, im_depth = CV_8U, im_channels = 1,
       im_data = [[[9]]]\<rparr>)) ! 0 ! 0 ! 0 = 4 \<and>
   im_data (fst (gatherResult
      (AdaptiveManifoldFilterN\<lparr>adjust_outliers := True, sigma_r := 1,
         srcSize := \<lparr>width = 1, height = 1\<rparr>, srcCnNum := 1, srcCn := [[[9]]],
         sum_w_ki_Psi_blur := [[[7]]], sum_w_ki_Psi_blur_0 := [[2]],
         minDistToManifoldSquared := [[0]]\<rparr>)
      \<lparr>im_size = \<lparr>width = 1, height = 1\<rparr>, im_depth = CV_32F, im_channels = 1,
       im_data = [[[9]]]\<rparr>)) ! 0 ! 0 ! 0 = 7 / 2"
proof -
  have v: "f32 (7 / 2) = 7 / 2" "f32 (- (11 / 2)) = - (11 / 2)" "f32 1 = 1"
    using f32_frac [of 7 1] f32_frac [of "- 11" 1] f32_int [of 1] by simp_all
  from gatherResult_values [of 0
      "AdaptiveManifoldFilterN\<lparr>srcSize := \<lparr>width = 1, height = 1\<rparr>, srcCnNum := 1,
         sum_w_ki_Psi_blur := [[[7]]], sum_w_ki_Psi_blur_0 := [[2]]\<rparr>" 0 0
      "\<lparr>im_size = \<lparr>width = 1, height = 1\<rparr>, im_depth = CV_8U, im_channels = 1,
       im_data = [[[9]]]\<rparr>"]
    gatherResult_values [of 0
      "AdaptiveManifoldFilterN\<lparr>adjust_outliers := True, sigma_r := 1,
         srcSize := \<lparr>width = 1, height = 1\<rparr>, srcCnNum := 1, srcCn := [[[9]]],
         sum_w_ki_Psi_blur := [[[7]]], sum_w_ki_Psi_blur_0 := [[2]],
         minDistToManifoldSquared := [[0]]\<rparr>" 0 0
      "\<lparr>im_size = \<lparr>width = 1, height = 1\<rparr>, im_depth = CV_32F, im_channels = 1,
       im_data = [[[9]]]\<rparr>"]
  show ?thesis
    by (simp add: is_mat_def AdaptiveManifoldFilterN_def cvRound_def clamp_def v)
qed

theorem gatherResult_tie_counterexample:
  "im_data (fst (gatherResult
      (AdaptiveManifoldFilterN\<lparr>adjust_outliers := True, sigma_r := 1,
         srcSize := \<lparr>width = 1, height = 1\<rparr>, srcCnNum := 1, srcCn := [[[200]]],
         sum_w_ki_Psi_blur := [[[7 / 2 - 1 / 2 ^ 22]]], sum_w_ki_Psi_blur_0 := [[1]],
         minDistToManifoldSquared := [[0]]\<rparr>)
      \<lparr>im_size = \<lparr>width = 1, height = 1\<rparr>, im_depth = CV_8U, im_channels = 1,
       im_data = [[[200]]]\<rparr>)) ! 0 ! 0 ! 0 = 4 \<and>
   saturate_cast CV_8U
     (exp (- 0.5 * 0 / 1\<^sup>2) * ((7 / 2 - 1 / 2 ^ 22) / 1 - 200) + 200) = 3"
proof -
  let ?st = "AdaptiveManifoldFilterN\<lparr>adjust_outliers := True, sigma_r := 1,
         srcSize := \<lparr>width = 1, height = 1\<rparr>, srcCnNum := 1, srcCn := [[[200]]],
         sum_w_ki_Psi_blur := [[[7 / 2 - 1 / 2 ^ 22]]], sum_w_ki_Psi_blur_0 := [[1]],
         minDistToManifoldSquared := [[0]]\<rparr>"
  let ?src = "\<lparr>im_size = \<lparr>width = 1, height = 1\<rparr>, im_depth = CV_8U, im_channels = 1,
       im_data = [[[200 :: real]]]\<rparr>"
  have g: "f32 (14680063 / 4194304) = 14680063 / 4194304"
    using f32_frac [of 14680063 22] by simp
  have d: "f32 (- (824180737 / 4194304)) = - (393 / 2)"
  proof -
    have "f32 (- (824180737 / 4194304)) =
       of_int (cvRound (- (824180737 / 4194304) /
                  2 powr of_int (max 7 (- 126) - (int 24 - 1)))) *
         2 powr of_int (max 7 (- 126) - (int 24 - 1))"
      unfolding f32_def by (rule fl_eval) (simp_all add: powr_realpow)
    also have "\<dots> = - (393 / 2)"
      by (simp add: powr_minus powr_realpow cvRound_def Let_def)
    finally show ?thesis .
  qed
  have v: "f32 1 = 1" "f32 (- (393 / 2)) = - (393 / 2)" "f32 (7 / 2) = 7 / 2"
    "f64 1 = 1" "f64 (- (1 / 2)) = - (1 / 2)" "f32 (- (1 / 2)) = - (1 / 2)"
    using f32_int [of 1] f32_frac [of "- 393" 1] f32_frac [of 7 1]
      f64_int [of 1] f64_frac [of "- 1" 1] f32_frac [of "- 1" 1]
    by simp_all
  have "im_data (fst (gatherResult ?st ?src)) ! 0 ! 0 ! 0 =
     saturate_cast (im_depth ?src)
       (f32 (f32 (f32 (exp (f32 (minDistToManifoldSquared ?st ! 0 ! 0 *
                               f32 (f64 (- 0.5 / f64 (sigma_r ?st * sigma_r ?st)))))) *
                  f32 (f32 (sum_w_ki_Psi_blur ?st ! 0 ! 0 ! 0 / sum_w_ki_Psi_blur_0 ?st ! 0 ! 0)
                         - srcCn ?st ! 0 ! 0 ! 0))
             + srcCn ?st ! 0 ! 0 ! 0))"
    by (rule gatherResult_adjust) (simp_all add: is_mat_def)
  also have "\<dots> = 4"
    by (simp add: g d v cvRound_def clamp_def)
  finally have m: "im_data (fst (gatherResult ?st ?src)) ! 0 ! 0 ! 0 = 4" .
  have "saturate_cast CV_8U
     (exp (- 0.5 * 0 / 1\<^sup>2) * ((7 / 2 - 1 / 2 ^ 22) / 1 - 200) + 200) = 3"
    by (simp add: cvRound_def clamp_def)
  with m show ?thesis by simp
qed


section \<open>Clusters\<close>

lemma word8_255_and: "(255 :: 8 word) AND m = m"
proof -
  have h: "(255 :: 8 word) = - 1" by simp
  show ?thesis by (subst h) (rule and.left_neutral)
qed

lemma length_concat_grid:
  "length (concat (map (\<lambda>y. map (f y) [0..<w]) [0..<h])) = h * w"
  by (induction h) simp_all

lemma length_difEtaSrc:
  "length (difEtaSrc st) = height (srcSize st) * width (srcSize st)"
  by (simp add: difEtaSrc_def Let_def length_concat_grid)

lemma is_mat_difOreientation: "is_mat (srcSize st) (difOreientation P st cluster)"
proof (rule is_matI)
  show "length (difOreientation P st cluster) = height (srcSize st)"
    by (simp add: difOreientation_def Let_def)
  fix y assume y: "y < height (srcSize st)"
  let ?w = "width (srcSize st)" and ?h = "height (srcSize st)"
  have "Suc y * ?w \<le> ?h * ?w" using y by (intro mult_le_mono1) simp
  then have "?w \<le> ?h * ?w - y * ?w" by simp
  then show "length (difOreientation P st cluster ! y) = width (srcSize st)"
    using y by (simp add: difOreientation_def Let_def length_difEtaSrc)
qed

lemma bitwise_and_nth:
  "is_mat sz a \<Longrightarrow> is_mat sz b \<Longrightarrow> y < height sz \<Longrightarrow> x < width sz \<Longrightarrow>
   bitwise_and a b ! y ! x = a ! y ! x AND b ! y ! x"
  by (simp add: bitwise_and_def is_mat_length is_mat_row)

lemma is_mat_bitwise_and: "is_mat sz a \<Longrightarrow> is_mat sz b \<Longrightarrow> is_mat sz (bitwise_and a b)"
  by (rule is_matI) (simp_all add: bitwise_and_def is_mat_length is_mat_row)

lemma computeClusters_nth:
  assumes "is_mat (srcSize st) cluster" "y < height (srcSize st)" "x < width (srcSize st)"
  shows "fst (computeClusters P st cluster) ! y ! x =
           (if difOreientation P st cluster ! y ! x < 0 then cluster ! y ! x else 0)"
    and "fst (snd (computeClusters P st cluster)) ! y ! x =
           (if 0 \<le> difOreientation P st cluster ! y ! x then cluster ! y ! x else 0)"
proof -
  let ?o = "difOreientation P st cluster"
  have o: "is_mat (srcSize st) ?o" by (rule is_mat_difOreientation)
  have lt: "is_mat (srcSize st) (compare_LT ?o 0)" and ge: "is_mat (srcSize st) (compare_GE ?o 0)"
    using o by (simp_all add: compare_LT_def compare_GE_def is_mat_map_map)
  have "compare_LT ?o 0 ! y ! x = (if ?o ! y ! x < 0 then 255 else 0)"
    unfolding compare_LT_def using o assms(2,3) by (rule map_map_nth)
  then show "fst (computeClusters P st cluster) ! y ! x =
           (if ?o ! y ! x < 0 then cluster ! y ! x else 0)"
    using bitwise_and_nth [OF lt assms] by (simp add: computeClusters_def Let_def word8_255_and)
  have "compare_GE ?o 0 ! y ! x = (if 0 \<le> ?o ! y ! x then 255 else 0)"
    unfolding compare_GE_def using o assms(2,3) by (rule map_map_nth)
  then show "fst (snd (computeClusters P st cluster)) ! y ! x =
           (if 0 \<le> ?o ! y ! x then cluster ! y ! x else 0)"
    using bitwise_and_nth [OF ge assms] by (simp add: computeClusters_def Let_def word8_255_and)
qed

lemma is_mat_computeClusters:
  assumes "is_mat (srcSize st) cluster"
  shows "is_mat (srcSize st) (fst (computeClusters P st cluster))"
    and "is_mat (srcSize st) (fst (snd (computeClusters P st cluster)))"
  using assms is_mat_difOreientation [of st P cluster]
  by (simp_all add: computeClusters_def Let_def is_mat_bitwise_and compare_LT_def compare_GE_def
      is_mat_map_map)

lemma pixels_iff: "(y, x) \<in> pixels m \<longleftrightarrow> y < length m \<and> x < length (m ! y) \<and> m ! y ! x \<noteq> 0"
  by (auto simp: pixels_def)

lemma pixels_is_mat:
  "is_mat sz m \<Longrightarrow> (y, x) \<in> pixels m \<longleftrightarrow> y < height sz \<and> x < width sz \<and> m ! y ! x \<noteq> 0"
  by (auto simp: pixels_iff is_mat_length is_mat_row)

lemma computeClusters_pixels:
  assumes "is_mat (srcSize st) cluster"
  shows "pixels (fst (computeClusters P st cluster)) \<inter>
         pixels (fst (snd (computeClusters P st cluster))) = {}"
    and "pixels (fst (computeClusters P st cluster)) \<union>
         pixels (fst (snd (computeClusters P st cluster))) = pixels cluster"
proof -
  note m = is_mat_computeClusters [OF assms, of P]
  show "pixels (fst (computeClusters P st cluster)) \<inter>
         pixels (fst (snd (computeClusters P st cluster))) = {}"
    by (auto simp: pixels_is_mat [OF m(1)] pixels_is_mat [OF m(2)]
        computeClusters_nth [OF assms] split: if_splits)
  show "pixels (fst (computeClusters P st cluster)) \<union>
         pixels (fst (snd (computeClusters P st cluster))) = pixels cluster"
    by (auto simp: pixels_is_mat [OF m(1)] pixels_is_mat [OF m(2)] pixels_is_mat [OF assms]
        computeClusters_nth [OF assms] split: if_splits)
qed


declare buildManifoldsAndPerformFiltering.simps [simp del]

lemma srcSize_compute_w_k [simp]: "srcSize (snd (compute_w_k P st etak dst sigma lvl)) = srcSize st"
  by (simp add: compute_w_k_def Let_def)

lemma srcSize_manifold_node [simp]: "srcSize (manifold_node P st eta lvl) = srcSize st"
  by (simp add: manifold_node_def splatting_def blurring_def slicing_def Let_def)

lemma srcSize_computeClusters [simp]:
  "srcSize (snd (snd (computeClusters P st cluster))) = srcSize st"
  by (simp add: computeClusters_def Let_def)

text \<open>The two cases of the recursion, with the results of the calls named by projections.\<close>

lemma build_leaf:
  "\<not> treeLevel < h \<Longrightarrow>
   buildManifoldsAndPerformFiltering P h st eta cluster treeLevel =
     (manifold_node P st eta treeLevel, [(treeLevel, cluster)])"
  by (subst buildManifoldsAndPerformFiltering.simps) (simp add: Let_def)

lemma build_node:
  "treeLevel < h \<Longrightarrow>
   buildManifoldsAndPerformFiltering P h st eta cluster treeLevel =
     (let st1 = manifold_node P st eta treeLevel;
          cc = computeClusters P st1 cluster;
          st2 = snd (snd cc);
          teta = map (map (\<lambda>w. f32 (1 - w))) (w_k st2);
          rm = buildManifoldsAndPerformFiltering P h st2
                 (computeEta P st2 teta (fst cc)) (fst cc) (treeLevel + 1);
          rp = buildManifoldsAndPerformFiltering P h (fst rm)
                 (computeEta P st2 teta (fst (snd cc))) (fst (snd cc)) (treeLevel + 1)
      in (fst rp, (treeLevel, cluster) # snd rm @ snd rp))"
  by (subst buildManifoldsAndPerformFiltering.simps) (simp add: Let_def split: prod.splits)

lemma srcSize_build [simp]:
  "srcSize (fst (buildManifoldsAndPerformFiltering P h st eta cluster treeLevel)) = srcSize st"
proof (induction "nat (h - treeLevel)" arbitrary: st eta cluster treeLevel)
  case 0
  then show ?case by (simp add: build_leaf)
next
  case (Suc n)
  then have lt: "treeLevel < h" and n: "n = nat (h - (treeLevel + 1))" by simp_all
  show ?case
    by (simp add: build_node [OF lt] Let_def Suc.hyps(1) [OF n])
qed

lemma build_levels:
  "v \<in> set (snd (buildManifoldsAndPerformFiltering P h st eta cluster treeLevel)) \<Longrightarrow>
   treeLevel \<le> fst v"
proof (induction "nat (h - treeLevel)" arbitrary: st eta cluster treeLevel)
  case 0
  then show ?case by (simp add: build_leaf)
next
  case (Suc n)
  then have lt: "treeLevel < h" and n: "n = nat (h - (treeLevel + 1))" by simp_all
  from Suc.prems show ?case
    using Suc.hyps(1) [OF n] by (fastforce simp add: build_node [OF lt] Let_def)
qed

lemma masks_at_build_below:
  assumes "L \<le> treeLevel"
  shows "masks_at L (snd (buildManifoldsAndPerformFiltering P h st eta cluster (treeLevel + 1))) = []"
proof -
  have "\<not> fst v = L"
    if "v \<in> set (snd (buildManifoldsAndPerformFiltering P h st eta cluster (treeLevel + 1)))" for v
    using build_levels [OF that] assms by simp
  then show ?thesis by (simp add: masks_at_def filter_empty_conv)
qed

lemma masks_partition_single: "masks_partition [m] m"
  by (simp add: masks_partition_def lessThan_Suc)

lemma masks_partition_subset:
  "masks_partition A a \<Longrightarrow> i < length A \<Longrightarrow> pixels (A ! i) \<subseteq> pixels a"
  by (auto simp: masks_partition_def)

lemma masks_partition_append:
  assumes A: "masks_partition A a" and B: "masks_partition B b"
    and d: "pixels a \<inter> pixels b = {}" and u: "pixels a \<union> pixels b = pixels c"
  shows "masks_partition (A @ B) c"
proof -
  have disj: "pixels ((A @ B) ! i) \<inter> pixels ((A @ B) ! j) = {}"
    if "i < length (A @ B)" "j < length (A @ B)" "i \<noteq> j" for i j
  proof (cases "i < length A"; cases "j < length A")
    assume "i < length A" "j < length A"
    with A that show ?thesis by (simp add: masks_partition_def nth_append)
  next
    assume ij: "i < length A" "\<not> j < length A"
    then have "pixels (A ! i) \<subseteq> pixels a" "pixels (B ! (j - length A)) \<subseteq> pixels b"
      using masks_partition_subset [OF A] masks_partition_subset [OF B] that by simp_all
    with d ij show ?thesis by (auto simp: nth_append)
  next
    assume ij: "\<not> i < length A" "j < length A"
    then have "pixels (A ! j) \<subseteq> pixels a" "pixels (B ! (i - length A)) \<subseteq> pixels b"
      using masks_partition_subset [OF A] masks_partition_subset [OF B] that by simp_all
    with d ij show ?thesis by (auto simp: nth_append)
  next
    assume ij: "\<not> i < length A" "\<not> j < length A"
    then have "i - length A < length B" "j - length A < length B" "i - length A \<noteq> j - length A"
      using that by auto
    with B ij show ?thesis by (simp add: masks_partition_def nth_append)
  qed
  have "(\<Union>k<length (A @ B). pixels ((A @ B) ! k)) =
      (\<Union>k<length A. pixels (A ! k)) \<union> (\<Union>k<length B. pixels (B ! k))"
  proof (intro set_eqI iffI)
    fix p assume "p \<in> (\<Union>k<length (A @ B). pixels ((A @ B) ! k))"
    then obtain k where k: "k < length A + length B" "p \<in> pixels ((A @ B) ! k)" by auto
    show "p \<in> (\<Union>k<length A. pixels (A ! k)) \<union> (\<Union>k<length B. pixels (B ! k))"
    proof (cases "k < length A")
      case True
      with k show ?thesis by (auto simp: nth_append)
    next
      case False
      with k have "k - length A < length B" "p \<in> pixels (B ! (k - length A))"
        by (auto simp: nth_append)
      then show ?thesis by blast
    qed
  next
    fix p assume "p \<in> (\<Union>k<length A. pixels (A ! k)) \<union> (\<Union>k<length B. pixels (B ! k))"
    then consider k where "k < length A" "p \<in> pixels (A ! k)"
      | k where "k < length B" "p \<in> pixels (B ! k)" by auto
    then show "p \<in> (\<Union>k<length (A @ B). pixels ((A @ B) ! k))"
    proof cases
      case 1
      then have "k < length (A @ B)" "p \<in> pixels ((A @ B) ! k)" by (simp_all add: nth_append)
      then show ?thesis by blast
    next
      case 2
      then have "length A + k < length (A @ B)" "p \<in> pixels ((A @ B) ! (length A + k))"
        by (simp_all add: nth_append)
      then show ?thesis by blast
    qed
  qed
  also have "\<dots> = pixels c" using A B u by (simp add: masks_partition_def)
  finally show ?thesis using disj by (simp add: masks_partition_def)
qed

lemma build_partition:
  "is_mat (srcSize st) cluster \<Longrightarrow> treeLevel \<le> L \<Longrightarrow> L \<le> h \<Longrightarrow>
   masks_partition
     (masks_at L (snd (buildManifoldsAndPerformFiltering P h st eta cluster treeLevel))) cluster"
proof (induction "nat (h - treeLevel)" arbitrary: st eta cluster treeLevel)
  case 0
  then have "\<not> treeLevel < h" "L = treeLevel" by simp_all
  then show ?case by (simp add: build_leaf masks_at_def masks_partition_single)
next
  case (Suc n)
  then have lt: "treeLevel < h" and n: "n = nat (h - (treeLevel + 1))" by simp_all
  let ?st1 = "manifold_node P st eta treeLevel"
  let ?cc = "computeClusters P ?st1 cluster"
  let ?st2 = "snd (snd ?cc)"
  let ?teta = "map (map (\<lambda>w. f32 (1 - w))) (w_k ?st2)"
  let ?rm = "buildManifoldsAndPerformFiltering P h ?st2
                 (computeEta P ?st2 ?teta (fst ?cc)) (fst ?cc) (treeLevel + 1)"
  let ?rp = "buildManifoldsAndPerformFiltering P h (fst ?rm)
                 (computeEta P ?st2 ?teta (fst (snd ?cc))) (fst (snd ?cc)) (treeLevel + 1)"
  have tr: "snd (buildManifoldsAndPerformFiltering P h st eta cluster treeLevel) =
      (treeLevel, cluster) # snd ?rm @ snd ?rp"
    by (simp add: build_node [OF lt] Let_def)
  have cl: "is_mat (srcSize ?st1) cluster" using Suc.prems(1) by simp
  show ?case
  proof (cases "L = treeLevel")
    case True
    then have "masks_at L (snd ?rm) = []" "masks_at L (snd ?rp) = []"
      by (simp_all add: masks_at_build_below)
    then have "masks_at L ((treeLevel, cluster) # snd ?rm @ snd ?rp) = [cluster]"
      using True by (simp add: masks_at_def)
    then show ?thesis by (simp add: tr masks_partition_single)
  next
    case False
    then have L: "treeLevel + 1 \<le> L" using Suc.prems(2) by simp
    have m: "masks_partition (masks_at L (snd ?rm)) (fst ?cc)"
      using is_mat_computeClusters(1) [OF cl, of P] L Suc.prems(3)
      by (intro Suc.hyps(1) [OF n]) simp_all
    have p: "masks_partition (masks_at L (snd ?rp)) (fst (snd ?cc))"
      using is_mat_computeClusters(2) [OF cl, of P] L Suc.prems(3)
      by (intro Suc.hyps(1) [OF n]) simp_all
    have "masks_partition (masks_at L (snd ?rm) @ masks_at L (snd ?rp)) cluster"
      using m p computeClusters_pixels [OF cl, of P] by (rule masks_partition_append)
    moreover have "masks_at L ((treeLevel, cluster) # snd ?rm @ snd ?rp) =
        masks_at L (snd ?rm) @ masks_at L (snd ?rp)"
      using False by (simp add: masks_at_def)
    ultimately show ?thesis by (simp add: tr)
  qed
qed



lemma pixels_ones:
  "pixels (replicate h (replicate w 255)) = {..<h} \<times> {..<w}"
  by (auto simp: pixels_iff)

lemma is_mat_ones: "is_mat sz (replicate (height sz) (replicate (width sz) v))"
  by (simp add: is_mat_def)

lemma split_bytes:
  "(if (a :: real) < 0 then (m :: 8 word) else 0) AND (if 0 \<le> a then m else 0) = 0"
  "(if (a :: real) < 0 then (m :: 8 word) else 0) OR (if 0 \<le> a then m else 0) = m"
  by auto

text \<open>
  Claim C3. For a parent mask of the size of the image and the projection field \<open>o\<close>
  (\<open>difOreientation\<close>), \<open>computeClusters\<close> returns \<open>cluster_minus = mask \<and> (o < 0)\<close> and
  \<open>cluster_plus = mask \<and> (o \<ge> 0)\<close>, so a pixel with \<open>o = 0\<close> goes to the plus branch; the two
  child masks are disjoint and their union is the parent mask. By induction over the
  recursion, the masks of the nodes visited at any one tree level partition the mask of
  the node the recursion started from, and for the all-ones root mask of \<open>filter\<close> that is
  every pixel of the image.
\<close>

theorem computeClusters_partition:
  assumes "is_mat (srcSize st) cluster"
  shows "is_mat (srcSize st) (fst (computeClusters P st cluster)) \<and>
     is_mat (srcSize st) (fst (snd (computeClusters P st cluster))) \<and>
     (\<forall>y<height (srcSize st). \<forall>x<width (srcSize st).
        fst (computeClusters P st cluster) ! y ! x =
          (if difOreientation P st cluster ! y ! x < 0 then cluster ! y ! x else 0) \<and>
        fst (snd (computeClusters P st cluster)) ! y ! x =
          (if 0 \<le> difOreientation P st cluster ! y ! x then cluster ! y ! x else 0) \<and>
        fst (computeClusters P st cluster) ! y ! x AND
          fst (snd (computeClusters P st cluster)) ! y ! x = 0 \<and>
        fst (computeClusters P st cluster) ! y ! x OR
          fst (snd (computeClusters P st cluster)) ! y ! x = cluster ! y ! x) \<and>
     (\<forall>L. treeLevel \<le> L \<and> L \<le> h \<longrightarrow>
        masks_partition
          (masks_at L (snd (buildManifoldsAndPerformFiltering P h st eta cluster treeLevel)))
          cluster) \<and>
     (\<forall>L. 1 \<le> L \<and> L \<le> h \<longrightarrow>
        masks_partition
          (masks_at L (snd (buildManifoldsAndPerformFiltering P h st eta
             (replicate (height (srcSize st)) (replicate (width (srcSize st)) 255)) 1)))
          (replicate (height (srcSize st)) (replicate (width (srcSize st)) 255))) \<and>
     pixels (replicate (height (srcSize st)) (replicate (width (srcSize st)) 255)) =
       {..<height (srcSize st)} \<times> {..<width (srcSize st)}"
proof -
  have "\<forall>y<height (srcSize st). \<forall>x<width (srcSize st).
        fst (computeClusters P st cluster) ! y ! x =
          (if difOreientation P st cluster ! y ! x < 0 then cluster ! y ! x else 0) \<and>
        fst (snd (computeClusters P st cluster)) ! y ! x =
          (if 0 \<le> difOreientation P st cluster ! y ! x then cluster ! y ! x else 0) \<and>
        fst (computeClusters P st cluster) ! y ! x AND
          fst (snd (computeClusters P st cluster)) ! y ! x = 0 \<and>
        fst (computeClusters P st cluster) ! y ! x OR
          fst (snd (computeClusters P st cluster)) ! y ! x = cluster ! y ! x"
  proof (intro allI impI)
    fix y x assume "y < height (srcSize st)" "x < width (srcSize st)"
    from computeClusters_nth [OF assms this, of P]
    show "fst (computeClusters P st cluster) ! y ! x =
          (if difOreientation P st cluster ! y ! x < 0 then cluster ! y ! x else 0) \<and>
        fst (snd (computeClusters P st cluster)) ! y ! x =
          (if 0 \<le> difOreientation P st cluster ! y ! x then cluster ! y ! x else 0) \<and>
        fst (computeClusters P st cluster) ! y ! x AND
          fst (snd (computeClusters P st cluster)) ! y ! x = 0 \<and>
        fst (computeClusters P st cluster) ! y ! x OR
          fst (snd (computeClusters P st cluster)) ! y ! x = cluster ! y ! x"
      by (simp add: split_bytes)
  qed
  moreover have "masks_partition
          (masks_at L (snd (buildManifoldsAndPerformFiltering P h st eta cluster treeLevel)))
          cluster" if "treeLevel \<le> L" "L \<le> h" for L
    using assms that by (rule build_partition)
  moreover have "masks_partition
          (masks_at L (snd (buildManifoldsAndPerformFiltering P h st eta
             (replicate (height (srcSize st)) (replicate (width (srcSize st)) 255)) 1)))
          (replicate (height (srcSize st)) (replicate (width (srcSize st)) 255))"
    if "1 \<le> L" "L \<le> h" for L
    using is_mat_ones that by (rule build_partition)
  ultimately show ?thesis
    using is_mat_computeClusters [OF assms, of P] by (simp add: pixels_ones)
qed

theorem computeClusters_partition_witness:
  "fst (computeClusters simple_prims
      (AdaptiveManifoldFilterN\<lparr>useRNG := False, srcSize := \<lparr>width = 2, height = 1\<rparr>,
         jointCnNum := 1, jointCn := [[[- 1, 0]]], etaFull := [[[0, 0]]]\<rparr>)
      [[255, 255]]) = [[255, 0]] \<and>
   fst (snd (computeClusters simple_prims
      (AdaptiveManifoldFilterN\<lparr>useRNG := False, srcSize := \<lparr>width = 2, height = 1\<rparr>,
         jointCnNum := 1, jointCn := [[[- 1, 0]]], etaFull := [[[0, 0]]]\<rparr>)
      [[255, 255]])) = [[0, 255]] \<and>
   masks_partition
     (masks_at 2 (snd (buildManifoldsAndPerformFiltering simple_prims 2
        (AdaptiveManifoldFilterN\<lparr>useRNG := False, srcSize := \<lparr>width = 2, height = 1\<rparr>,
           jointCnNum := 1, jointCn := [[[- 1, 0]]], etaFull := [[[0, 0]]]\<rparr>)
        [[[0, 0]]] [[255, 255]] 1)))
     [[255, 255]]"
proof -
  let ?st = "AdaptiveManifoldFilterN\<lparr>useRNG := False, srcSize := \<lparr>width = 2, height = 1\<rparr>,
         jointCnNum := 1, jointCn := [[[- 1, 0]]], etaFull := [[[0, 0]]]\<rparr>"
  have m: "is_mat (srcSize ?st) [[255, 255]]" by (simp add: is_mat_def)
  have u: "[0..<2] = [0, 1]" by (simp add: numeral_2_eq_2)
  have o: "difOreientation simple_prims ?st [[255, 255]] = [[- 1, 0]]"
    by (simp add: u difOreientation_def eigenVec_def computeEigenVector_def difEtaSrc_def
        initVec_def pca_iteration_def dot_def dots_def cv_norm_def cv_div_def cv_subtract_def
        mat_binop_def mat_cols_def AdaptiveManifoldFilterN_def Let_def real_sqrt_divide
        f32_values)
  note t = computeClusters_partition [OF m, of simple_prims 1 2 "[[[0, 0]]]"]
  have c: "fst (computeClusters simple_prims ?st [[255, 255]]) = [[255, 0]]"
    "fst (snd (computeClusters simple_prims ?st [[255, 255]])) = [[0, 255]]"
    unfolding computeClusters_def Let_def o
    by (simp_all add: compare_LT_def compare_GE_def bitwise_and_def)
  from t c show ?thesis by simp
qed


text \<open>The size and the depth of the tree the recursion visits.\<close>

lemma build_length:
  "length (snd (buildManifoldsAndPerformFiltering P h st eta cluster treeLevel)) =
     2 ^ (nat (h - treeLevel) + 1) - 1"
proof (induction "nat (h - treeLevel)" arbitrary: st eta cluster treeLevel)
  case 0
  then show ?case by (simp add: build_leaf)
next
  case (Suc n)
  then have lt: "treeLevel < h" and n: "n = nat (h - (treeLevel + 1))" by simp_all
  have s: "nat (h - treeLevel) = Suc n" using Suc.hyps(2) by simp
  obtain k where k: "(2 :: nat) ^ (n + 1) = Suc k"
    by (cases "(2 :: nat) ^ (n + 1)") simp_all
  then have "(2 :: nat) ^ (Suc n + 1) = 2 * Suc k" by simp
  with k have a: "Suc ((2 ^ (n + 1) - 1) + (2 ^ (n + 1) - 1)) = 2 ^ (Suc n + 1) - (1 :: nat)"
    by simp
  have "length (snd (buildManifoldsAndPerformFiltering P h st eta cluster treeLevel)) =
      Suc ((2 ^ (n + 1) - 1) + (2 ^ (n + 1) - 1))"
    using n by (simp add: build_node [OF lt] Let_def Suc.hyps(1) [OF n])
  then show ?case by (simp only: a s)
qed

lemma build_levels_upper:
  "v \<in> set (snd (buildManifoldsAndPerformFiltering P h st eta cluster treeLevel)) \<Longrightarrow>
   fst v \<le> max h treeLevel"
proof (induction "nat (h - treeLevel)" arbitrary: st eta cluster treeLevel)
  case 0
  then show ?case by (simp add: build_leaf)
next
  case (Suc n)
  then have lt: "treeLevel < h" and n: "n = nat (h - (treeLevel + 1))" by simp_all
  from Suc.prems show ?case
    using Suc.hyps(1) [OF n] lt by (fastforce simp add: build_node [OF lt] Let_def)
qed


section \<open>The set-up of \<^verbatim>\<open>filter\<close>\<close>

lemma initSrcAndJoint_Inr:
  assumes "initSrcAndJoint st src joint = Inr st'"
  shows "params st' = params st \<and> srcSize st' = im_size src \<and> srcCnNum st' = im_channels src"
  using assms
  by (auto simp: initSrcAndJoint_def params_def Let_def split: if_splits option.splits)

lemma allocBuffers_fields [simp]:
  "params (allocBuffers P s) = params s" "srcSize (allocBuffers P s) = srcSize s"
  "srcCnNum (allocBuffers P s) = srcCnNum s" "jointCnNum (allocBuffers P s) = jointCnNum s"
  "length (jointCn (allocBuffers P s)) = jointCnNum s"
  by (simp_all add: allocBuffers_def params_def vec_resize_def)

lemma initBuffers_Inr:
  assumes "initBuffers P st src joint = Inr st'"
  shows "params st' = params st \<and> srcSize st' = im_size src \<and> srcCnNum st' = im_channels src \<and>
    length (jointCn st') = jointCnNum st'"
proof -
  from assms obtain s where s: "initSrcAndJoint st src joint = Inr s" and st': "st' = allocBuffers P s"
    by (auto simp: initBuffers_def split: sum.splits)
  from initSrcAndJoint_Inr [OF s] show ?thesis by (simp add: st')
qed

lemma resolveParams_fields [simp]:
  "params (resolveParams s) = params s" "srcSize (resolveParams s) = srcSize s"
  "srcCnNum (resolveParams s) = srcCnNum s" "jointCnNum (resolveParams s) = jointCnNum s"
  "jointCn (resolveParams s) = jointCn s"
  "curTreeHeight (resolveParams s) =
     (if tree_height s \<le> 0 then computeManifoldTreeHeight (sigma_s s) (sigma_r s)
      else tree_height s)"
  "sigma_r_over_sqrt_2 (resolveParams s) = f32 (f64 (sigma_r s / f64 (sqrt 2)))"
  by (simp_all add: resolveParams_def params_def)

lemma seedRNG_Inr:
  assumes "seedRNG s = Inr st'"
  shows "params st' = params s \<and> srcSize st' = srcSize s \<and> srcCnNum st' = srcCnNum s \<and>
    jointCnNum st' = jointCnNum s \<and> jointCn st' = jointCn s \<and>
    curTreeHeight st' = curTreeHeight s \<and> sigma_r_over_sqrt_2 st' = sigma_r_over_sqrt_2 s \<and>
    0 < length (jointCn s) \<and>
    (\<exists>seedCoef. mat_at (jointCn s ! 0) (height (srcSize s) div 2) (width (srcSize s) div 2)
        = Inr seedCoef \<and> st' = s\<lparr>rnd := seedState seedCoef\<rparr>)"
  using assms
  by (auto simp: seedRNG_def vec_at_def params_def split: sum.splits if_splits)

lemma params_simps:
  "params a = params b \<longleftrightarrow>
     adjust_outliers a = adjust_outliers b \<and> sigma_s a = sigma_s b \<and> sigma_r a = sigma_r b \<and>
     tree_height a = tree_height b \<and> num_pca_iterations a = num_pca_iterations b \<and>
     useRNG a = useRNG b"
  by (auto simp: params_def)

lemma filter_setup_Inr:
  assumes "filter_setup P st src joint = Inr st'"
  shows "1 \<le> sigma_s st" "0 < sigma_r st" "sigma_r st \<le> 1"
    "params st' = params (st\<lparr>num_pca_iterations := max 1 (num_pca_iterations st)\<rparr>)"
    "srcSize st' = im_size src" "srcCnNum st' = im_channels src"
    "length (jointCn st') = jointCnNum st'" "0 < jointCnNum st'"
    "curTreeHeight st' =
       (if tree_height st \<le> 0 then computeManifoldTreeHeight (sigma_s st) (sigma_r st)
        else tree_height st)"
    "sigma_r_over_sqrt_2 st' = f32 (f64 (sigma_r st / f64 (sqrt 2)))"
    "\<exists>seedCoef. mat_at (jointCn st' ! 0) (height (im_size src) div 2) (width (im_size src) div 2)
        = Inr seedCoef \<and> rnd st' = seedState seedCoef"
proof -
  from assms show v: "1 \<le> sigma_s st" "0 < sigma_r st" "sigma_r st \<le> 1"
    by (auto simp: filter_setup_def split: if_splits)
  let ?s0 = "st\<lparr>num_pca_iterations := max 1 (num_pca_iterations st)\<rparr>"
  from assms v obtain s where s: "initBuffers P ?s0 src joint = Inr s"
    and r: "seedRNG (resolveParams s) = Inr st'"
    by (auto simp: filter_setup_def split: sum.splits)
  note b = initBuffers_Inr [OF s]
  note q = seedRNG_Inr [OF r]
  from b q show "params st' = params ?s0" by simp
  from b q show "srcSize st' = im_size src" "srcCnNum st' = im_channels src"
    "length (jointCn st') = jointCnNum st'" "0 < jointCnNum st'" by simp_all
  have p: "tree_height s = tree_height st" "sigma_s s = sigma_s st" "sigma_r s = sigma_r st"
    using b by (simp_all add: params_simps)
  from q show "curTreeHeight st' =
       (if tree_height st \<le> 0 then computeManifoldTreeHeight (sigma_s st) (sigma_r st)
        else tree_height st)" "sigma_r_over_sqrt_2 st' = f32 (f64 (sigma_r st / f64 (sqrt 2)))"
    by (simp_all add: p)
  from q b show "\<exists>seedCoef. mat_at (jointCn st' ! 0) (height (im_size src) div 2)
        (width (im_size src) div 2) = Inr seedCoef \<and> rnd st' = seedState seedCoef"
    by auto
qed

lemma cv_scale_is_mat: "is_mat sz m \<Longrightarrow> is_mat sz (cv_scale m k)"
  by (simp add: cv_scale_def is_mat_map_map)

lemma valid_image_split:
  assumes "valid_image img"
  shows "cv_split img = im_data img" "length (im_data img) = im_channels img"
    "0 < im_channels img" "is_mat (im_size img) (im_data img ! 0)"
    "0 < height (im_size img)" "0 < width (im_size img)"
  using assms by (auto simp: valid_image_def cv_split_def im_empty_def)

lemma initJoint_valid:
  assumes "valid_image src" "valid_joint src joint"
  shows "fst (initJoint src joint) = None \<and> 0 < fst (snd (initJoint src joint)) \<and>
     length (snd (snd (initJoint src joint))) = fst (snd (initJoint src joint)) \<and>
     is_mat (im_size src) (snd (snd (initJoint src joint)) ! 0)"
proof -
  note v = valid_image_split [OF assms(1)]
  have src: "fst (None :: error option, im_channels src,
             if im_depth src = CV_32F then cv_split src
             else map (\<lambda>i. cv_scale (cv_split src ! i) (getNormalizer (im_depth src)))
                    [0..<im_channels src]) = None \<and>
      0 < im_channels src \<and>
      length (if im_depth src = CV_32F then cv_split src
             else map (\<lambda>i. cv_scale (cv_split src ! i) (getNormalizer (im_depth src)))
                    [0..<im_channels src]) = im_channels src \<and>
      is_mat (im_size src) ((if im_depth src = CV_32F then cv_split src
             else map (\<lambda>i. cv_scale (cv_split src ! i) (getNormalizer (im_depth src)))
                    [0..<im_channels src]) ! 0)"
    using v by (simp add: cv_scale_is_mat)
  show ?thesis
  proof (cases joint)
    case JointSameObject
    then show ?thesis using src by (simp add: initJoint_def)
  next
    case (JointMat j)
    show ?thesis
    proof (cases "im_empty j")
      case True
      with JointMat src show ?thesis by (simp add: initJoint_def)
    next
      case False
      with assms(2) JointMat have vj: "valid_image j" "im_size j = im_size src"
        "im_depth j = CV_8U \<or> im_depth j = CV_16U \<or> im_depth j = CV_32F"
        by (auto simp: valid_joint_def)
      note w = valid_image_split [OF vj(1)]
      have ms: "mat_size (im_data j ! 0) = im_size src"
        using w(4,5) vj(2) by (simp add: mat_size_is_mat)
      show ?thesis
        using JointMat False w vj ms
        by (auto simp add: initJoint_def Let_def vec_at_def cv_scale_is_mat)
    qed
  qed
qed

lemma initSrcAndJoint_valid:
  assumes "valid_image src" "valid_joint src joint"
  shows "\<exists>s. initSrcAndJoint st src joint = Inr s \<and> 0 < jointCnNum s \<and>
     length (jointCn s) = jointCnNum s \<and> is_mat (im_size src) (jointCn s ! 0)"
  using initJoint_valid [OF assms] valid_image_split [OF assms(1)]
  by (simp add: initSrcAndJoint_def Let_def)

lemma vec_resize_id: "length v = n \<Longrightarrow> vec_resize n v = v"
  by (simp add: vec_resize_def)

lemma filter_setup_succeeds:
  assumes "1 \<le> sigma_s st" "0 < sigma_r st" "sigma_r st \<le> 1"
    and "valid_image src" "valid_joint src joint"
  shows "\<exists>st'. filter_setup P st src joint = Inr st'"
proof -
  let ?s0 = "st\<lparr>num_pca_iterations := max 1 (num_pca_iterations st)\<rparr>"
  from initSrcAndJoint_valid [OF assms(4,5), of ?s0] obtain s where
    s: "initSrcAndJoint ?s0 src joint = Inr s" and n: "0 < jointCnNum s"
    "length (jointCn s) = jointCnNum s" and m: "is_mat (im_size src) (jointCn s ! 0)"
    by blast
  have sz: "srcSize s = im_size src" using initSrcAndJoint_Inr [OF s] by simp
  note v = valid_image_split [OF assms(4)]
  have j: "jointCn (allocBuffers P s) = jointCn s"
    using n by (simp add: allocBuffers_def vec_resize_id)
  have "height (im_size src) div 2 < height (im_size src)"
    "width (im_size src) div 2 < width (im_size src)"
    using v(5,6) by simp_all
  then have "mat_at (jointCn s ! 0) (height (im_size src) div 2) (width (im_size src) div 2) =
      Inr (jointCn s ! 0 ! (height (im_size src) div 2) ! (width (im_size src) div 2))"
    using m by (simp add: mat_at_def is_mat_length is_mat_row)
  then have "\<exists>st'. seedRNG (resolveParams (allocBuffers P s)) = Inr st'"
    using n by (simp add: seedRNG_def j sz vec_at_def)
  then show ?thesis
    using assms(1,2,3) s by (simp add: filter_setup_def initBuffers_def)
qed

text \<open>Bounds of \<open>ln 2\<close> and \<open>ln 90\<close>, from \<open>(65/64)\<^sup>4\<^sup>4 \<le> 2 \<le> (65/64)\<^sup>4\<^sup>5\<close>.\<close>

lemma ln2_bounds: "43 / 64 \<le> ln (2 :: real)" "ln (2 :: real) \<le> 45 / 64"
proof -
  have l: "1 / 64 - (1 / 64)\<^sup>2 \<le> ln (1 + 1 / 64 :: real)"
    by (rule ln_one_plus_pos_lower_bound) simp_all
  have u: "ln (1 + 1 / 64 :: real) \<le> 1 / 64"
    by (rule ln_add_one_self_le_self) simp
  have "(1 + 1 / 64 :: real) ^ 44 \<le> 2" by (simp add: power_divide)
  then have "ln ((1 + 1 / 64 :: real) ^ 44) \<le> ln 2"
    by simp
  then have "44 * ln (1 + 1 / 64 :: real) \<le> ln 2"
    by (simp add: ln_realpow)
  with l show "43 / 64 \<le> ln (2 :: real)" by (simp add: power2_eq_square)
  have "(2 :: real) \<le> (1 + 1 / 64) ^ 45" by (simp add: power_divide)
  then have "ln (2 :: real) \<le> ln ((1 + 1 / 64) ^ 45)"
    by simp
  then have "ln (2 :: real) \<le> 45 * ln (1 + 1 / 64)"
    by (simp add: ln_realpow)
  with u show "ln (2 :: real) \<le> 45 / 64" by simp
qed

lemma ln90_bounds: "17 / 4 \<le> ln (90 :: real)" "ln (90 :: real) \<le> 37 / 8"
proof -
  have "ln (90 :: real) = ln (2 ^ 6 * (1 + 13 / 32))" by simp
  also have "\<dots> = ln (2 ^ 6) + ln (1 + 13 / 32 :: real)" by (rule ln_mult_pos) simp_all
  also have "ln (2 ^ 6 :: real) = 6 * ln 2" by (simp only: ln_realpow)
  finally have e: "ln (90 :: real) = 6 * ln 2 + ln (1 + 13 / 32)" .
  have l: "13 / 32 - (13 / 32)\<^sup>2 \<le> ln (1 + 13 / 32 :: real)"
    by (rule ln_one_plus_pos_lower_bound) simp_all
  have u: "ln (1 + 13 / 32 :: real) \<le> 13 / 32"
    by (rule ln_add_one_self_le_self) simp
  show "17 / 4 \<le> ln (90 :: real)" unfolding e using l ln2_bounds(1) by (simp add: power2_eq_square)
  show "ln (90 :: real) \<le> 37 / 8" unfolding e using u ln2_bounds(2) by simp
qed

lemma c_log_2_bounds: "43 / 64 \<le> c_log 2" "c_log 2 \<le> 45 / 64"
  unfolding c_log_def
  using f64_ge [of 43 6 "ln 2"] f64_le [of 45 6 "ln 2"] ln2_bounds by simp_all

text \<open>\<open>Log2\<close> of a number whose quotient of logarithms is found exactly, and of 90.\<close>

lemma Log2_4: "Log2 4 = 2" and Log2_16: "Log2 16 = 4"
proof -
  have n: "2 powr - 1022 \<le> \<bar>ln (2 :: real)\<bar>" "2 powr - 1022 \<le> \<bar>2 * ln (2 :: real)\<bar>"
  proof -
    define t where "t = (2 :: real) powr - 1022"
    have "(2 :: real) powr - 1022 \<le> 2 powr - 1" by (rule powr_mono) simp_all
    then have a: "t \<le> 2 powr - 1" by (simp only: t_def)
    have b: "(2 :: real) powr - 1 = 1 / 2" by (simp add: powr_neg_one)
    have "t \<le> \<bar>ln (2 :: real)\<bar>" using a b ln2_bounds(1) by linarith
    then show "2 powr - 1022 \<le> \<bar>ln (2 :: real)\<bar>" by (simp only: t_def)
    have "t \<le> \<bar>2 * ln (2 :: real)\<bar>" using a b ln2_bounds(1) by linarith
    then show "2 powr - 1022 \<le> \<bar>2 * ln (2 :: real)\<bar>" by (simp only: t_def)
  qed
  have "ln (4 :: real) = ln (2 ^ 2)" by simp
  also have "\<dots> = 2 * ln 2" using ln_realpow [of "2 :: real" 2] by simp
  finally have l4: "ln (4 :: real) = 2 * ln 2" .
  have "ln (16 :: real) = ln (2 ^ 4)" by simp
  also have "\<dots> = 2 * (2 * ln 2)" using ln_realpow [of "2 :: real" 4] by simp
  finally have l16: "ln (16 :: real) = 2 * (2 * ln 2)" .
  have c4: "c_log 4 = 2 * c_log 2"
    unfolding c_log_def l4 by (rule f64_double [OF n(1)])
  have "f64 (2 * (2 * ln 2)) = 2 * f64 (2 * ln 2)" by (rule f64_double [OF n(2)])
  also have "f64 (2 * ln 2) = 2 * f64 (ln 2)" by (rule f64_double [OF n(1)])
  finally have c16: "c_log 16 = 4 * c_log 2"
    unfolding c_log_def l16 by simp
  have nz: "c_log 2 \<noteq> 0" using c_log_2_bounds(1) by simp
  have v: "f64 2 = 2" "f64 4 = 4" using f64_int [of 2] f64_int [of 4] by simp_all
  show "Log2 4 = 2" by (simp add: Log2_def c4 nz v)
  show "Log2 16 = 4" by (simp add: Log2_def c16 nz v)
qed

lemma Log2_90: "\<lfloor>Log2 90\<rfloor> = 6"
proof -
  have a: "17 / 4 \<le> c_log 90" "c_log 90 \<le> 37 / 8"
    unfolding c_log_def
    using f64_ge [of 17 2 "ln 90"] f64_le [of 37 3 "ln 90"] ln90_bounds by simp_all
  note b = c_log_2_bounds
  have p: "0 < c_log 2" using b(1) by simp
  have "6 * c_log 2 \<le> c_log 90" using a(1) b(2) by simp
  then have lo: "6 \<le> c_log 90 / c_log 2" using p by (simp add: le_divide_eq)
  have "c_log 90 \<le> 111 / 16 * c_log 2" using a(2) b(1) by simp
  then have hi: "c_log 90 / c_log 2 \<le> 111 / 16" using p by (simp add: divide_le_eq)
  have "6 \<le> Log2 90" "Log2 90 \<le> 111 / 16"
    unfolding Log2_def
    using f64_ge [of 6 0 "c_log 90 / c_log 2"] f64_le [of 111 4 "c_log 90 / c_log 2"] lo hi
    by simp_all
  then show ?thesis by (simp add: floor_eq_iff)
qed

text \<open>
  Claim C5, as amended. Whenever the set-up of \<open>filter\<close> goes through (so \<open>sigma_s \<ge> 1\<close> and
  \<open>0 < sigma_r \<le> 1\<close>) and the configured \<open>tree_height\<close> is not positive, the tree height that
  \<open>filter\<close> stores for the recursion is \<open>max(2, ceil(Hs \<cdot> (1 - sigma_r)))\<close> with
  \<open>Hs = floor(Log2(sigma_s)) - 1\<close>, where the quotient of logarithms \<open>Log2\<close>, the difference
  and the product are computed in binary64, each rounded to nearest. It is at least 2, and
  the recursion started with it visits the \<open>2\<^sup>h - 1\<close> nodes of a tree of that height.
  Because of the roundings the value can differ from that of the formula in exact
  arithmetic (the counterexample: \<open>sigma_s = 90\<close> and \<open>sigma_r\<close> the number of binary64 next
  to 0.6, where the formula gives 3 in exact arithmetic and the code computes 2).
\<close>

theorem filter_tree_height:
  assumes "filter_setup P st src joint = Inr st'" "tree_height st \<le> 0"
  shows "1 \<le> sigma_s st \<and> 0 < sigma_r st \<and> sigma_r st \<le> 1 \<and>
     curTreeHeight st' =
       max 2 \<lceil>f64 ((of_int \<lfloor>Log2 (sigma_s st)\<rfloor> - 1) * f64 (1 - sigma_r st))\<rceil> \<and>
     Log2 (sigma_s st) = f64 (f64 (ln (sigma_s st)) / f64 (ln 2)) \<and>
     2 \<le> curTreeHeight st' \<and>
     length (snd (buildManifoldsAndPerformFiltering P (curTreeHeight st') st' eta cluster 1)) =
       2 ^ nat (curTreeHeight st') - 1"
proof -
  note s = filter_setup_Inr [OF assms(1)]
  have h: "curTreeHeight st' =
      max 2 \<lceil>f64 ((of_int \<lfloor>Log2 (sigma_s st)\<rfloor> - 1) * f64 (1 - sigma_r st))\<rceil>"
    using assms(2) by (simp add: s(9) computeManifoldTreeHeight_def Let_def)
  then have g: "2 \<le> curTreeHeight st'" by simp
  then have "nat (curTreeHeight st' - 1) + 1 = nat (curTreeHeight st')" by simp
  then have "length (snd (buildManifoldsAndPerformFiltering P (curTreeHeight st') st' eta
      cluster 1)) = 2 ^ nat (curTreeHeight st') - 1"
    by (simp only: build_length)
  then show ?thesis using s(1,2,3) h g by (simp add: Log2_def c_log_def)
qed

theorem filter_tree_height_witness:
  "\<exists>st'. filter_setup simple_prims (createAMFilter 16 0.2 False)
       \<lparr>im_size = \<lparr>width = 4, height = 4\<rparr>, im_depth = CV_32F, im_channels = 1,
        im_data = [replicate 4 (replicate 4 0.5)]\<rparr> JointSameObject = Inr st' \<and>
     curTreeHeight st' = 3"
proof -
  let ?st = "createAMFilter 16 0.2 False"
  let ?src = "\<lparr>im_size = \<lparr>width = 4, height = 4\<rparr>, im_depth = CV_32F, im_channels = 1,
        im_data = [replicate 4 (replicate 4 (0.5 :: real))]\<rparr>"
  have p: "sigma_s ?st = 16" "sigma_r ?st = 0.2" "tree_height ?st = - 1"
    by (simp_all add: createAMFilter_def AdaptiveManifoldFilterN_def)
  have "valid_image ?src" "valid_joint ?src JointSameObject"
    by (simp_all add: valid_image_def valid_joint_def is_mat_def)
  with filter_setup_succeeds [of ?st ?src JointSameObject simple_prims] p
  obtain st' where s: "filter_setup simple_prims ?st ?src JointSameObject = Inr st'"
    by auto
  have t: "tree_height ?st \<le> 0"
    by (simp add: createAMFilter_def AdaptiveManifoldFilterN_def)
  have "curTreeHeight st' =
      max 2 \<lceil>f64 ((of_int \<lfloor>Log2 (sigma_s ?st)\<rfloor> - 1) * f64 (1 - sigma_r ?st))\<rceil>"
    using filter_tree_height [OF s t] by blast
  then have c: "curTreeHeight st' = max 2 \<lceil>f64 (3 * f64 (1 - 0.2))\<rceil>"
    unfolding p(1,2) Log2_16 by simp
  have "3 / 4 \<le> f64 (1 - 0.2)" "f64 (1 - 0.2) \<le> 7 / 8"
    using f64_ge [of 3 2 "1 - 0.2"] f64_le [of 7 3 "1 - 0.2"] by simp_all
  then have "9 / 4 \<le> 3 * f64 (1 - 0.2)" "3 * f64 (1 - 0.2) \<le> 21 / 8" by simp_all
  then have "9 / 4 \<le> f64 (3 * f64 (1 - 0.2))" "f64 (3 * f64 (1 - 0.2)) \<le> 21 / 8"
    using f64_ge [of 9 2 "3 * f64 (1 - 0.2)"] f64_le [of 21 3 "3 * f64 (1 - 0.2)"] by simp_all
  then have "\<lceil>f64 (3 * f64 (1 - 0.2))\<rceil> = 3" by (simp add: ceiling_eq_iff)
  with c s show ?thesis by simp
qed

theorem filter_tree_height_counterexample:
  "(\<exists>st'. filter_setup simple_prims (createAMFilter 90 (5404319552844595 / 2 ^ 53) False)
       \<lparr>im_size = \<lparr>width = 32, height = 32\<rparr>, im_depth = CV_32F, im_channels = 1,
        im_data = [replicate 32 (replicate 32 0.5)]\<rparr> JointSameObject = Inr st' \<and>
     curTreeHeight st' = 2) \<and>
   max 2 \<lceil>(of_int \<lfloor>log 2 (90 :: real)\<rfloor> - 1) * (1 - 5404319552844595 / 2 ^ 53 :: real)\<rceil> =
     (3 :: int)"
proof -
  let ?r = "5404319552844595 / 2 ^ 53 :: real"
  let ?st = "createAMFilter 90 ?r False"
  let ?src = "\<lparr>im_size = \<lparr>width = 32, height = 32\<rparr>, im_depth = CV_32F, im_channels = 1,
        im_data = [replicate 32 (replicate 32 (0.5 :: real))]\<rparr>"
  have p: "sigma_s ?st = 90" "sigma_r ?st = ?r" "tree_height ?st = - 1"
    by (simp_all add: createAMFilter_def AdaptiveManifoldFilterN_def)
  have "valid_image ?src" "valid_joint ?src JointSameObject"
    by (simp_all add: valid_image_def valid_joint_def is_mat_def)
  with filter_setup_succeeds [of ?st ?src JointSameObject simple_prims] p
  obtain st' where s: "filter_setup simple_prims ?st ?src JointSameObject = Inr st'"
    by auto
  have "curTreeHeight st' =
      (if tree_height ?st \<le> 0 then computeManifoldTreeHeight (sigma_s ?st) (sigma_r ?st)
       else tree_height ?st)"
    by (rule filter_setup_Inr(9) [OF s])
  then have "curTreeHeight st' = computeManifoldTreeHeight 90 ?r"
    unfolding p by simp
  also have "\<dots> = max 2 \<lceil>f64 (5 * f64 (1 - ?r))\<rceil>"
    by (simp add: computeManifoldTreeHeight_def Let_def Log2_90)
  also have "f64 (1 - ?r) = 3602879701896397 / 2 ^ 53"
    using f64_frac [of 3602879701896397 53] by simp
  also have "f64 (5 * (3602879701896397 / 2 ^ 53)) = 2"
  proof -
    have "f64 (5 * (3602879701896397 / 2 ^ 53)) =
       of_int (cvRound (5 * (3602879701896397 / 2 ^ 53) /
                  2 powr of_int (max 1 (- 1022) - (int 53 - 1)))) *
         2 powr of_int (max 1 (- 1022) - (int 53 - 1))"
      unfolding f64_def by (rule fl_eval) (simp_all add: powr_realpow)
    also have "\<dots> = 2"
      by (simp add: powr_minus powr_realpow cvRound_def Let_def)
    finally show ?thesis .
  qed
  finally have c: "curTreeHeight st' = 2" by simp
  have "\<lfloor>log 2 (90 :: real)\<rfloor> = 6"
    by (rule floor_log2_eq) (simp_all add: powr_realpow)
  then have "max 2 \<lceil>(of_int \<lfloor>log 2 (90 :: real)\<rfloor> - 1) * (1 - ?r)\<rceil> = (3 :: int)"
    by (simp add: ceiling_eq_iff)
  with s c show ?thesis by blast
qed


section \<open>Rejected and clamped parameters\<close>

lemma filter_amf_Inl:
  "filter_setup P st src joint = Inl e \<Longrightarrow> filter_amf P st src joint = Inl e"
  by (simp add: filter_amf_def)

text \<open>
  Claim C7, as amended. A call of \<open>filter\<close> with \<open>sigma_s < 1\<close> or \<open>sigma_r\<close> outside \<open>(0, 1]\<close>
  fails with the assertion error at the first statement: whatever the source and the
  guide, no buffer is set up, the object is left as it was and there is no output. The
  assertion does not look at the source: on an empty source with valid parameters the
  call gets past it (the counterexample), and reads \<^verbatim>\<open>srcCn[0]\<close> of an empty vector.
\<close>

theorem filter_rejects_invalid_sigma:
  "\<not> (1 \<le> sigma_s st \<and> 0 < sigma_r st \<and> sigma_r st \<le> 1) \<Longrightarrow>
   filter_amf P st src joint = Inl (AssertionFailed, st)"
  by (rule filter_amf_Inl) (simp add: filter_setup_def)

theorem filter_rejects_invalid_sigma_witness:
  "filter_amf simple_prims (createAMFilter 0.5 0.2 False)
     \<lparr>im_size = \<lparr>width = 1, height = 1\<rparr>, im_depth = CV_32F, im_channels = 1,
      im_data = [[[0.5]]]\<rparr> JointSameObject =
   Inl (AssertionFailed, createAMFilter 0.5 0.2 False)"
  using filter_rejects_invalid_sigma [of "createAMFilter 0.5 0.2 False" simple_prims
     "\<lparr>im_size = \<lparr>width = 1, height = 1\<rparr>, im_depth = CV_32F, im_channels = 1,
      im_data = [[[0.5]]]\<rparr>" JointSameObject]
  by (simp add: createAMFilter_def AdaptiveManifoldFilterN_def)

theorem filter_empty_src_counterexample:
  "failure (filter_amf simple_prims (createAMFilter 16 0.2 False)
     \<lparr>im_size = \<lparr>width = 0, height = 0\<rparr>, im_depth = CV_8U, im_channels = 1, im_data = []\<rparr>
     JointSameObject) = Some OutOfRange"
  by (simp add: filter_amf_def filter_setup_def initBuffers_def initSrcAndJoint_def failure_def
      createAMFilter_def AdaptiveManifoldFilterN_def cv_split_def im_empty_def Let_def)

lemma params_compute_w_k [simp]: "params (snd (compute_w_k P st e d s l)) = params st"
  by (simp add: compute_w_k_def params_def Let_def)

lemma params_manifold_node [simp]: "params (manifold_node P st eta lvl) = params st"
  by (simp add: manifold_node_def splatting_def blurring_def slicing_def Let_def params_simps)
     (simp add: compute_w_k_def Let_def)

lemma params_computeClusters [simp]:
  "params (snd (snd (computeClusters P st cluster))) = params st"
  by (simp add: computeClusters_def Let_def params_def)

lemma params_build [simp]:
  "params (fst (buildManifoldsAndPerformFiltering P h st eta cluster treeLevel)) = params st"
proof (induction "nat (h - treeLevel)" arbitrary: st eta cluster treeLevel)
  case 0
  then show ?case by (simp add: build_leaf)
next
  case (Suc n)
  then have lt: "treeLevel < h" and n: "n = nat (h - (treeLevel + 1))" by simp_all
  show ?case
    by (simp add: build_node [OF lt] Let_def Suc.hyps(1) [OF n])
qed

lemma params_gatherResult [simp]: "params (snd (gatherResult st src)) = params st"
  by (simp add: gatherResult_def Let_def params_def)




section \<open>The degenerate split\<close>

lemma foldl_sum_squares:
  "foldl (\<lambda>s x. s + x * x) a v = a + sum_list (map (\<lambda>x. x * x) v)" for a :: real
  by (induction v arbitrary: a) simp_all

lemma cv_norm_zero:
  assumes "cv_norm v = 0" "x \<in> set v"
  shows "x = 0"
proof -
  have nn: "\<And>y. y \<in> set (map (\<lambda>x. x * x) v) \<Longrightarrow> 0 \<le> y" by auto
  have "sum_list (map (\<lambda>x. x * x) v) = 0"
    using assms(1) by (simp add: cv_norm_def foldl_sum_squares)
  then have "\<forall>y \<in> set (map (\<lambda>x. x * x) v). y = 0"
    using nn by (subst (asm) sum_list_nonneg_eq_0_iff) blast+
  with assms(2) show ?thesis by auto
qed

lemma length_pca_iteration: "length (pca_iteration X m d) = mat_cols X"
proof -
  have "length (foldl (\<lambda>dst k. map (\<lambda>c. f32 (dst ! c + t ! k ! c)) [0..<n]) a xs) = n"
    if "length a = n" for t :: "real list list" and a xs n
    using that by (induction xs arbitrary: a) simp_all
  then show ?thesis by (simp add: pca_iteration_def Let_def)
qed

lemma length_pca_funpow:
  "0 < n \<Longrightarrow> length (((pca_iteration X m) ^^ n) v) = mat_cols X"
  by (cases n) (simp_all add: length_pca_iteration)

lemma difEtaSrc_rows: "r \<in> set (difEtaSrc st) \<Longrightarrow> length r = jointCnNum st"
  by (auto simp: difEtaSrc_def Let_def)

lemma mat_cols_difEtaSrc:
  assumes "0 < height (srcSize st)" "0 < width (srcSize st)"
  shows "mat_cols (difEtaSrc st) = jointCnNum st"
proof -
  have "length (difEtaSrc st) \<noteq> 0"
    using assms by (simp add: length_difEtaSrc)
  then obtain r rs where r: "difEtaSrc st = r # rs" by (cases "difEtaSrc st") auto
  then have "length r = jointCnNum st" using difEtaSrc_rows [of r st] by simp
  with r show ?thesis by (simp add: mat_cols_def)
qed

lemma dot_zero: "n \<le> k \<Longrightarrow> dot r (replicate k 0) n = 0"
proof -
  have "n \<le> k \<Longrightarrow> foldl (\<lambda>dots c. dots + r ! c * replicate k 0 ! c) 0 [0..<n] = 0"
    by (induction n) simp_all
  then show "n \<le> k \<Longrightarrow> dot r (replicate k 0) n = 0" by (simp add: dot_def)
qed

lemma zero_norm_eigenVec:
  assumes "cv_norm (((pca_iteration (difEtaSrc st) cluster) ^^ nat (num_pca_iterations st))
             (fst (initVec P st))) = 0"
  shows "eigenVec P st cluster =
     replicate (length (((pca_iteration (difEtaSrc st) cluster) ^^ nat (num_pca_iterations st))
             (fst (initVec P st)))) 0"
  using assms
  by (simp add: eigenVec_def computeEigenVector_def Let_def cv_div_def map_replicate_const)

lemma zero_norm_orientation:
  assumes "1 \<le> num_pca_iterations st"
    and "cv_norm (((pca_iteration (difEtaSrc st) cluster) ^^ nat (num_pca_iterations st))
             (fst (initVec P st))) = 0"
    and "y < height (srcSize st)" "x < width (srcSize st)"
  shows "eigenVec P st cluster = replicate (jointCnNum st) 0"
    and "difOreientation P st cluster ! y ! x = 0"
proof -
  let ?w = "width (srcSize st)" and ?h = "height (srcSize st)"
  have "0 < nat (num_pca_iterations st)" using assms(1) by simp
  then have "length (((pca_iteration (difEtaSrc st) cluster) ^^ nat (num_pca_iterations st))
             (fst (initVec P st))) = jointCnNum st"
    using assms(3,4) by (simp add: length_pca_funpow mat_cols_difEtaSrc)
  with zero_norm_eigenVec [OF assms(2)]
  show e: "eigenVec P st cluster = replicate (jointCnNum st) 0" by simp
  have flat: "map (\<lambda>r. dot r (eigenVec P st cluster) (jointCnNum st)) (difEtaSrc st) =
      replicate (?h * ?w) 0"
    by (simp add: e dot_zero map_replicate_const length_difEtaSrc)
  have "Suc y * ?w \<le> ?h * ?w" using assms(3) by (intro mult_le_mono1) simp
  then have "x < ?h * ?w - y * ?w" using assms(4) by simp
  then show "difOreientation P st cluster ! y ! x = 0"
    using assms(3,4) by (simp add: difOreientation_def Let_def flat)
qed

text \<open>
  Claim C8. When the vector the power iteration ends with has norm 0, as it has when the
  products of the iteration underflow in binary32 (the mask having the size of the image
  and at least one iteration being made, as \<open>filter\<close> ensures), the eigenvector is the zero
  vector, the projection of every pixel is 0, \<open>cluster_plus\<close> is the whole parent mask and
  \<open>cluster_minus\<close> is empty. The recursion does not depend on the split: from level \<open>l\<close> it
  visits exactly \<open>2 ^ (tree_height - l + 1) - 1\<close> nodes, none below level \<open>l\<close> or beyond
  \<open>tree_height\<close>, and returns. (The division of the vector by its norm is \<^verbatim>\<open>cv::divide\<close>,
  which stores 0 for a zero divisor.)
\<close>

theorem zero_norm_split:
  assumes "is_mat (srcSize st) cluster" "1 \<le> num_pca_iterations st"
    and "cv_norm (((pca_iteration (difEtaSrc st) cluster) ^^ nat (num_pca_iterations st))
             (fst (initVec P st))) = 0"
  shows "(\<forall>v \<in> set (eigenVec P st cluster). v = 0) \<and>
     (\<forall>y<height (srcSize st). \<forall>x<width (srcSize st).
        difOreientation P st cluster ! y ! x = 0 \<and>
        fst (computeClusters P st cluster) ! y ! x = 0) \<and>
     fst (snd (computeClusters P st cluster)) = cluster \<and>
     pixels (fst (computeClusters P st cluster)) = {} \<and>
     length (snd (buildManifoldsAndPerformFiltering P h st eta cluster treeLevel)) =
       2 ^ (nat (h - treeLevel) + 1) - 1 \<and>
     (\<forall>v \<in> set (snd (buildManifoldsAndPerformFiltering P h st eta cluster treeLevel)).
        treeLevel \<le> fst v \<and> fst v \<le> max h treeLevel)"
proof -
  let ?w = "width (srcSize st)" and ?h = "height (srcSize st)"
  let ?cc = "computeClusters P st cluster"
  have ev: "\<forall>v \<in> set (eigenVec P st cluster). v = 0"
    using zero_norm_eigenVec [OF assms(3)] by simp
  have o: "difOreientation P st cluster ! y ! x = 0" if "y < ?h" "x < ?w" for y x
    using assms(2,3) that by (rule zero_norm_orientation(2))
  have m: "fst ?cc ! y ! x = 0" and p: "fst (snd ?cc) ! y ! x = cluster ! y ! x"
    if "y < ?h" "x < ?w" for y x
    using that by (simp_all add: computeClusters_nth [OF assms(1)] o)
  note im = is_mat_computeClusters [OF assms(1), of P]
  have "fst (snd ?cc) = cluster"
  proof (rule nth_equalityI)
    show "length (fst (snd ?cc)) = length cluster"
      using im(2) assms(1) by (simp add: is_mat_length)
    fix y assume "y < length (fst (snd ?cc))"
    then have y: "y < ?h" using im(2) by (simp add: is_mat_length)
    show "fst (snd ?cc) ! y = cluster ! y"
    proof (rule nth_equalityI)
      show "length (fst (snd ?cc) ! y) = length (cluster ! y)"
        using im(2) assms(1) y by (simp add: is_mat_row)
      fix x assume "x < length (fst (snd ?cc) ! y)"
      then have "x < ?w" using im(2) y by (simp add: is_mat_row)
      with y show "fst (snd ?cc) ! y ! x = cluster ! y ! x" by (rule p)
    qed
  qed
  moreover have "pixels (fst ?cc) = {}"
    using m by (auto simp: pixels_is_mat [OF im(1)])
  ultimately show ?thesis
    using ev o m build_levels [of _ P h st eta cluster treeLevel]
      build_levels_upper [of _ P h st eta cluster treeLevel]
    by (simp add: build_length)
qed

theorem zero_norm_split_witness:
  "cv_norm (pca_iteration
      (difEtaSrc (AdaptiveManifoldFilterN\<lparr>useRNG := False,
         srcSize := \<lparr>width = 2, height = 1\<rparr>, jointCnNum := 1, jointCn := [[[0, 0]]],
         etaFull := [[[1 / 2 ^ 100, 1 / 2 ^ 100]]]\<rparr>))
      [[255, 255]] [0.5]) = 0 \<and>
   fst (snd (computeClusters simple_prims
      (AdaptiveManifoldFilterN\<lparr>useRNG := False, srcSize := \<lparr>width = 2, height = 1\<rparr>,
         jointCnNum := 1, jointCn := [[[0, 0]]], etaFull := [[[1 / 2 ^ 100, 1 / 2 ^ 100]]]\<rparr>)
      [[255, 255]])) = [[255, 255]] \<and>
   pixels (fst (computeClusters simple_prims
      (AdaptiveManifoldFilterN\<lparr>useRNG := False, srcSize := \<lparr>width = 2, height = 1\<rparr>,
         jointCnNum := 1, jointCn := [[[0, 0]]], etaFull := [[[1 / 2 ^ 100, 1 / 2 ^ 100]]]\<rparr>)
      [[255, 255]])) = {} \<and>
   length (snd (buildManifoldsAndPerformFiltering simple_prims 3
      (AdaptiveManifoldFilterN\<lparr>useRNG := False, srcSize := \<lparr>width = 2, height = 1\<rparr>,
         jointCnNum := 1, jointCn := [[[0, 0]]], etaFull := [[[1 / 2 ^ 100, 1 / 2 ^ 100]]]\<rparr>)
      [[[0, 0]]] [[255, 255]] 1)) = 7"
proof -
  let ?st = "AdaptiveManifoldFilterN\<lparr>useRNG := False, srcSize := \<lparr>width = 2, height = 1\<rparr>,
         jointCnNum := 1, jointCn := [[[0, 0]]], etaFull := [[[1 / 2 ^ 100, 1 / 2 ^ 100]]]\<rparr>"
  have m: "is_mat (srcSize ?st) [[255, 255]]" by (simp add: is_mat_def)
  have n: "1 \<le> num_pca_iterations ?st" by (simp add: AdaptiveManifoldFilterN_def)
  have u: "[0..<2] = [0, 1]" by (simp add: numeral_2_eq_2)
  have v: "f32 (- (1 / 1267650600228229401496703205376)) = - (1 / 1267650600228229401496703205376)"
    "f32 (- (1 / 2535301200456458802993406410752)) = - (1 / 2535301200456458802993406410752)"
    using f32_frac [of "- 1" 100] f32_frac [of "- 1" 101] by simp_all
  have w: "f32 (1 / 3213876088517980551083924184682325205044405987565585670602752) = 0"
    by (rule f32_underflow_pow) simp
  have x: "difEtaSrc ?st = [[- (1 / 2 ^ 100)], [- (1 / 2 ^ 100)]]"
    by (simp add: u difEtaSrc_def cv_subtract_def mat_binop_def AdaptiveManifoldFilterN_def
        Let_def v)
  have i: "fst (initVec simple_prims ?st) = [0.5]"
    by (simp add: initVec_def AdaptiveManifoldFilterN_def)
  have p: "pca_iteration (difEtaSrc ?st) [[255, 255]] [0.5] = [0]"
    unfolding x by (simp add: u pca_iteration_def dots_def mat_cols_def Let_def v w)
  have k: "nat (num_pca_iterations ?st) = 1" by (simp add: AdaptiveManifoldFilterN_def)
  have f1: "(f ^^ (1 :: nat)) a = f a" for f :: "real list \<Rightarrow> real list" and a by simp
  have z: "cv_norm (((pca_iteration (difEtaSrc ?st) [[255, 255]]) ^^ nat (num_pca_iterations ?st))
             (fst (initVec simple_prims ?st))) = 0"
    unfolding i k f1 p by (simp add: cv_norm_def)
  have c: "cv_norm (pca_iteration (difEtaSrc ?st) [[255, 255]] [0.5]) = 0"
    unfolding p by (simp add: cv_norm_def)
  have "(2 :: nat) ^ (nat (3 - 1) + 1) - 1 = 7" by simp
  with zero_norm_split [OF m n z, of 3 "[[[0, 0]]]" 1] c show ?thesis by simp
qed


section \<open>Independence of earlier calls\<close>















lemma keep_min_dist_on [simp]: "adjust_outliers st \<Longrightarrow> keep_min_dist m st = st"
  by (simp add: keep_min_dist_def)


lemma dist2_update [simp]:
  "dist2 (st\<lparr>minDistToManifoldSquared := m\<rparr>) = dist2 st"
  "dist2 (st\<lparr>etaFull := e\<rparr>) = dist2 st"
  "dist2 (st\<lparr>w_k := w\<rparr>) = dist2 st"
  "dist2 (st\<lparr>Psi_splat_small := p\<rparr>) = dist2 st"
  "dist2 (st\<lparr>Psi_splat_0_small := p0\<rparr>) = dist2 st"
  by (simp_all add: dist2_def fun_eq_iff cong: if_cong)











lemma w_k_keep [simp]: "w_k (keep_min_dist m a) = w_k a"
  by (simp add: keep_min_dist_def)

lemma jointCnNum_manifold_node [simp]: "jointCnNum (manifold_node P st eta lvl) = jointCnNum st"
  by (simp add: manifold_node_def splatting_def blurring_def slicing_def Let_def)
     (simp add: compute_w_k_def Let_def)

lemma jointCnNum_computeClusters [simp]:
  "jointCnNum (snd (snd (computeClusters P st cluster))) = jointCnNum st"
  by (simp add: computeClusters_def Let_def)

lemma jointCnNum_build [simp]:
  "jointCnNum (fst (buildManifoldsAndPerformFiltering P h st eta cluster treeLevel)) =
     jointCnNum st"
proof (induction "nat (h - treeLevel)" arbitrary: st eta cluster treeLevel)
  case 0
  then show ?case by (simp add: build_leaf)
next
  case (Suc n)
  then have lt: "treeLevel < h" and n: "n = nat (h - (treeLevel + 1))" by simp_all
  show ?case
    by (simp add: build_node [OF lt] Let_def Suc.hyps(1) [OF n])
qed

lemma length_computeEta [simp]: "length (computeEta P st teta c) = jointCnNum st"
  by (simp add: computeEta_def Let_def)











lemma outcome_Inl: "failure r = Some e \<Longrightarrow> outcome r = Inl e"
  by (cases r) (auto simp: failure_def outcome_def)






end
